theory Spec2Isabelle
  imports
    Main
    "HOL-Library.Word"
    "HOL-Library.Sublist"
    "HOL-Library.AList"
    "HOL-Library.Char_ord"
    "HOL-Library.List_Lexorder"
begin

chapter \<open>Projection synchronization and conditional append (romshark/eventlog-example)\<close>

text \<open>
  Two services replay one shared event log into a local key-value projection:
  the consumer, which only reads the log, and the producer, which also appends
  put and take events and guards takes by a conditional append. The theory
  embeds the event codec, the database layer, both services' \<^verbatim>\<open>apply\<close> and
  synchronization, the read query and the producer's \<^verbatim>\<open>Put\<close> and \<^verbatim>\<open>Take\<close>, and
  states what holds of them, numbered C1 to C10.

  State is passed explicitly: a method on a transaction takes the transaction
  and returns the one it leaves; an operation of a service takes the database
  and the log and returns both. A Go \<^verbatim>\<open>error\<close> result is an \<open>error option\<close>
  (\<open>None\<close> for \<^verbatim>\<open>nil\<close>), a result with a value is a sum with the error on the
  left. Only the retry loop of the conditional append may run forever; its
  functions return an \<open>option\<close> whose \<open>None\<close> stands for not returning.
\<close>

section \<open>Data model\<close>

text \<open>
  Go's \<^verbatim>\<open>int64\<close> is a 64-bit word: \<open>+\<close> and \<open>-\<close> wrap around, and the
  comparisons of the source are signed, so they read the word through \<open>sint\<close>.
  Go strings are byte strings, modelled as \<open>string\<close>.
\<close>

type_synonym int64 = "64 word"

text \<open>
  Every error value the sources create or compare against. Errors built with
  \<^verbatim>\<open>fmt.Errorf\<close> are constructors; \<^verbatim>\<open>%w\<close> wrapping keeps the wrapped error.
  \<open>ErrJSON\<close> stands for any error of \<^verbatim>\<open>encoding/json\<close>, \<open>ErrSyntax\<close> and
  \<open>ErrRange\<close> for those of \<^verbatim>\<open>strconv\<close>, \<open>ErrKeyNotFound\<close> for badger's, and
  \<open>ErrMismatchingVersions\<close> and \<open>ErrInvalidVersion\<close> for the event-log client's.
\<close>

datatype error =
    ErrUnknownEventType
  | ErrJSON
  | ErrDecodingEvent error
  | ErrInvalidObject
  | ErrInvalidQuantity
  | ErrInsuffQuant
  | ErrAbortScan
  | ErrKeyNotFound
  | ErrSyntax
  | ErrRange
  | ErrParsingScannedQuantity error
  | ErrReadingProjectionVersion error
  | ErrMismatchingVersions
  | ErrInvalidVersion

text \<open>
  \<^verbatim>\<open>client.EventData\<close> is what a writer hands to the log; \<^verbatim>\<open>client.Event\<close> is what
  the log hands back, with the version it assigned (a string in the sources, which
  compare it with \<^verbatim>\<open>""\<close> and \<^verbatim>\<open>"0"\<close>). Only the fields the sources read are kept.
\<close>

record EventData =
  Label :: string
  PayloadJSON :: string

record client_Event = EventData +
  Version :: string

text \<open>\<^verbatim>\<open>event.Event\<close> of \<^verbatim>\<open>event/event.go\<close>.\<close>

record Event =
  Operation :: string
  Object :: string
  Quantity :: int64

section \<open>The event codec (src/event/event.go)\<close>

text \<open>
  \<^verbatim>\<open>json.Unmarshal\<close> and \<^verbatim>\<open>json.Marshal\<close> belong to Go's standard library, so both
  are parameters. \<open>unmarshal p\<close> is \<open>None\<close> when \<^verbatim>\<open>json.Unmarshal\<close> reports an
  error on the payload \<open>p\<close>, and otherwise the values it leaves in the fields
  \<^verbatim>\<open>Object\<close> and \<^verbatim>\<open>Quantity\<close> of a fresh \<^verbatim>\<open>Event\<close> (the field \<^verbatim>\<open>Operation\<close> is tagged
  \<^verbatim>\<open>json:"-"\<close> and is never touched). The switch on the label comes first, as in
  the source.
\<close>

definition Decode :: "(string \<Rightarrow> (string \<times> int64) option) \<Rightarrow> client_Event \<Rightarrow> error + Event" where
  "Decode unmarshal i =
     (if Label i = ''put'' \<or> Label i = ''take''
      then (case unmarshal (PayloadJSON i) of
              None \<Rightarrow> Inl ErrJSON
            | Some (object, quantity) \<Rightarrow>
                Inr \<lparr>Operation = Label i, Object = object, Quantity = quantity\<rparr>)
      else Inl ErrUnknownEventType)"

definition Encode :: "(Event \<Rightarrow> error + string) \<Rightarrow> Event \<Rightarrow> error + EventData" where
  "Encode marshal i =
     (if Operation i = ''put'' \<or> Operation i = ''take''
      then (case marshal i of
              Inl err \<Rightarrow> Inl err
            | Inr payload \<Rightarrow> Inr \<lparr>Label = Operation i, PayloadJSON = payload\<rparr>)
      else Inl ErrUnknownEventType)"

section \<open>Decimal rendering of quantities\<close>

text \<open>
  \<^verbatim>\<open>Tx.Set\<close> stores a quantity as \<^verbatim>\<open>fmt.Sprintf("%d", num)\<close> and \<^verbatim>\<open>Tx.GetQuantity\<close>
  reads it back with \<^verbatim>\<open>strconv.ParseInt(string(v), 10, 64)\<close>. Both are standard
  library functions; they are written out here after their documentation: an
  optional sign, then decimal digits only (base 10 admits no underscores). The
  digits are read from left to right, and the first one that is no digit is a
  syntax error, the first one that takes the value past 64 unsigned bits a
  range error, whichever comes first; a value outside the 64-bit signed range
  is a range error too.
\<close>

definition digit_char :: "nat \<Rightarrow> char" where
  "digit_char d = ''0123456789'' ! d"

definition is_digit :: "char \<Rightarrow> bool" where
  "is_digit c = (CHR ''0'' \<le> c \<and> c \<le> CHR ''9'')"

definition digit_val :: "char \<Rightarrow> nat" where
  "digit_val c = of_char c - of_char CHR ''0''"

function digits :: "nat \<Rightarrow> string" where
  "digits n = (if n < 10 then [digit_char n] else digits (n div 10) @ [digit_char (n mod 10)])"
  by pat_completeness auto
termination
  by (relation "measure id") auto

definition Sprintf_d :: "int64 \<Rightarrow> string" where
  "Sprintf_d n =
     (if sint n < 0 then CHR ''-'' # digits (nat (- sint n)) else digits (nat (sint n)))"

fun parse_digits :: "nat \<Rightarrow> string \<Rightarrow> error + nat" where
  "parse_digits acc [] = Inr acc"
| "parse_digits acc (c # cs) =
     (if \<not> is_digit c then Inl ErrSyntax
      else if 2 ^ 64 \<le> acc * 10 + digit_val c then Inl ErrRange
      else parse_digits (acc * 10 + digit_val c) cs)"

definition ParseUint :: "string \<Rightarrow> error + nat" where
  "ParseUint s = (if s = [] then Inl ErrSyntax else parse_digits 0 s)"

definition ParseInt :: "string \<Rightarrow> error + int64" where
  "ParseInt s =
     (if s = [] then Inl ErrSyntax
      else
        let neg = (hd s = CHR ''-'');
            s' = (if hd s = CHR ''+'' \<or> hd s = CHR ''-'' then tl s else s)
        in (case ParseUint s' of
              Inl err \<Rightarrow> Inl err
            | Inr un \<Rightarrow>
                if \<not> neg \<and> 2 ^ 63 \<le> un then Inl ErrRange
                else if neg \<and> 2 ^ 63 < un then Inl ErrRange
                else Inr (if neg then - word_of_nat un else word_of_nat un)))"

section \<open>The projection database (package database, src/cmd/consumer/main.go, lines 590 to 787)\<close>

text \<open>
  Badger is an external key-value engine. A transaction is modelled by the
  key-value pairs it sees, its own writes included: a finite association list
  from keys to values. \<^verbatim>\<open>Get\<close> fails with \<^verbatim>\<open>ErrKeyNotFound\<close> on a missing key and
  with nothing else; \<^verbatim>\<open>Set\<close> and \<^verbatim>\<open>Delete\<close> do not fail. The methods of \<^verbatim>\<open>Tx\<close> keep
  the error results of the source, so every \<^verbatim>\<open>if err != nil\<close> of a caller is a
  branch here too. Logging is left out.
\<close>

type_synonym Tx = "(string \<times> string) list"
type_synonym DB = "(string \<times> string) list"

definition Tx_get :: "Tx \<Rightarrow> string \<Rightarrow> error + string" where
  "Tx_get t key = (case map_of t key of None \<Rightarrow> Inl ErrKeyNotFound | Some v \<Rightarrow> Inr v)"

definition Tx_set :: "Tx \<Rightarrow> string \<Rightarrow> string \<Rightarrow> error option \<times> Tx" where
  "Tx_set t key v = (None, AList.update key v t)"

definition Tx_delete :: "Tx \<Rightarrow> string \<Rightarrow> error option \<times> Tx" where
  "Tx_delete t key = (None, AList.delete key t)"

definition Tx_Delete :: "Tx \<Rightarrow> string \<Rightarrow> error option \<times> Tx" where
  "Tx_Delete t object = Tx_delete t (''o_'' @ object)"

definition Tx_Set :: "Tx \<Rightarrow> string \<Rightarrow> int64 \<Rightarrow> error option \<times> Tx" where
  "Tx_Set t object num = Tx_set t (''o_'' @ object) (Sprintf_d num)"

definition SetProjectionVersion :: "Tx \<Rightarrow> string \<Rightarrow> error option \<times> Tx" where
  "SetProjectionVersion t version = Tx_set t ''version'' version"

definition GetQuantity :: "Tx \<Rightarrow> string \<Rightarrow> error + int64" where
  "GetQuantity t object =
     (case Tx_get t (''o_'' @ object) of
        Inl err \<Rightarrow> if err = ErrKeyNotFound then Inr 0 else Inl err
      | Inr v \<Rightarrow> ParseInt v)"

definition GetProjectionVersion :: "Tx \<Rightarrow> error + string" where
  "GetProjectionVersion t =
     (case Tx_get t ''version'' of
        Inl err \<Rightarrow> if err = ErrKeyNotFound then Inr '''' else Inl err
      | Inr v \<Rightarrow> Inr v)"

text \<open>
  \<^verbatim>\<open>scanPrefix\<close>: badger iterates over the keys with the prefix in byte order. The
  loop body declares its own \<^verbatim>\<open>err\<close> with \<^verbatim>\<open>:=\<close> and leaves the function with
  \<^verbatim>\<open>return err\<close> as soon as the callback fails; the named result \<^verbatim>\<open>err\<close>, which the
  test after the loop reads, is never assigned and is still \<^verbatim>\<open>nil\<close> there.
\<close>

fun scan_items :: "(string \<Rightarrow> string \<Rightarrow> error option) \<Rightarrow> (string \<times> string) list \<Rightarrow> error option" where
  "scan_items fn [] = None"
| "scan_items fn ((key, v) # rest) =
     (case fn key v of Some err \<Rightarrow> Some err | None \<Rightarrow> scan_items fn rest)"

definition scanPrefix :: "Tx \<Rightarrow> string \<Rightarrow> (string \<Rightarrow> string \<Rightarrow> error option) \<Rightarrow> error option" where
  "scanPrefix t p fn =
     (let err = None
      in (case scan_items fn (sort_key fst (filter (\<lambda>(key, v). prefix p key) t)) of
            Some e \<Rightarrow> Some e
          | None \<Rightarrow> if err \<noteq> None \<and> err \<noteq> Some ErrAbortScan then err else None))"

definition ScanObjects :: "Tx \<Rightarrow> (string \<Rightarrow> int64 \<Rightarrow> error option) \<Rightarrow> error option" where
  "ScanObjects t fn =
     scanPrefix t ''o_''
       (\<lambda>key v. case ParseInt v of
                  Inl err \<Rightarrow> Some (ErrParsingScannedQuantity err)
                | Inr q \<Rightarrow> fn (drop (length ''o_'') key) q)"

text \<open>
  \<^verbatim>\<open>DB.WithinTx\<close>: the closure runs on a transaction opened on the database; the
  transaction is committed when the closure returns \<^verbatim>\<open>nil\<close> and discarded
  otherwise. The closures of the services also talk to the event log, which no
  discard rolls back: \<open>w\<close> is that outside world, threaded through. A closure that
  does not return is \<open>None\<close>, and then neither does \<open>WithinTx\<close>.
\<close>

datatype TxType = ReadOnly | ReadWrite

definition WithinTx ::
  "TxType \<Rightarrow> (Tx \<Rightarrow> 'w \<Rightarrow> (error option \<times> Tx \<times> 'w) option) \<Rightarrow> DB \<Rightarrow> 'w
     \<Rightarrow> (error option \<times> DB \<times> 'w) option" where
  "WithinTx tt fn d w =
     (case fn d w of
        None \<Rightarrow> None
      | Some (Some err, t, w') \<Rightarrow> Some (Some err, d, w')
      | Some (None, t, w') \<Rightarrow> Some (None, t, w'))"

section \<open>The event-log client\<close>

text \<open>
  The client (\<^verbatim>\<open>github.com/romshark/eventlog/client\<close>) is an external library.
  The log is the list of its accepted events in log order, each with the
  version the log assigned to it; the version a log assigns to its next event is
  opaque, so it is a parameter \<open>nv\<close> of every appending operation. No other
  writer appends while an operation of this model runs. Cancellation of the
  context and failures of the network are left out.
\<close>

type_synonym Log = "client_Event list"

text \<open>
  Modelled from the spec: \<^verbatim>\<open>InitialVersion() -> version\<close>, with the reserved
  sentinel for the empty log, which the sources test as \<^verbatim>\<open>sv == "0"\<close>.
\<close>

definition VersionInitial :: "Log \<Rightarrow> error + string" where
  "VersionInitial lg = (case lg of [] \<Rightarrow> Inr ''0'' | e # es \<Rightarrow> Inr (Version e))"

text \<open>The log's current head: the version of its last event, the sentinel when empty.\<close>

definition head_version :: "Log \<Rightarrow> string" where
  "head_version lg = (if lg = [] then ''0'' else Version (last lg))"

text \<open>
  Modelled from the spec: \<^verbatim>\<open>Scan(fromVersion, follow, onEvent) -> err\<close> delivers the
  events in version order, starting with the event that carries \<^verbatim>\<open>fromVersion\<close>
  (which is why the services skip the event of their own marker). It stops at the
  first error of the callback and returns it. A version that no event of the log
  carries is refused. The callback may update the variables it captures: \<open>s\<close>.
\<close>

fun scan_events ::
  "(client_Event \<Rightarrow> 's \<Rightarrow> error option \<times> 's) \<Rightarrow> client_Event list \<Rightarrow> 's \<Rightarrow> error option \<times> 's" where
  "scan_events fn [] s = (None, s)"
| "scan_events fn (e # es) s =
     (case fn e s of
        (Some err, s') \<Rightarrow> (Some err, s')
      | (None, s') \<Rightarrow> scan_events fn es s')"

definition Scan ::
  "Log \<Rightarrow> string \<Rightarrow> (client_Event \<Rightarrow> 's \<Rightarrow> error option \<times> 's) \<Rightarrow> 's \<Rightarrow> error option \<times> 's" where
  "Scan lg version fn s =
     (let es = dropWhile (\<lambda>e. Version e \<noteq> version) lg
      in if es = [] then (Some ErrInvalidVersion, s) else scan_events fn es s)"

text \<open>
  Modelled from the spec: \<^verbatim>\<open>Append(events) -> version\<close>, the unconditional durable
  append, and the conditional append that is accepted only while the log's head
  still equals the expected version.
\<close>

definition Append :: "(Log \<Rightarrow> string) \<Rightarrow> Log \<Rightarrow> EventData \<Rightarrow> (error + string) \<times> Log" where
  "Append nv lg ev =
     (Inr (nv lg), lg @ [\<lparr>Label = Label ev, PayloadJSON = PayloadJSON ev, Version = nv lg\<rparr>])"

definition AppendCheck ::
  "(Log \<Rightarrow> string) \<Rightarrow> Log \<Rightarrow> string \<Rightarrow> EventData \<Rightarrow> (error + string) \<times> Log" where
  "AppendCheck nv lg assumed ev =
     (if assumed = head_version lg then Append nv lg ev else (Inl ErrMismatchingVersions, lg))"

text \<open>
  Modelled from the spec: \<^verbatim>\<open>TryAppend(expectedVersion, buildEvent, onConflict)\<close>.
  \<^verbatim>\<open>buildEvent\<close> may fail with a domain error, which aborts with no side effect;
  \<^verbatim>\<open>onConflict\<close> is invoked only on a version-mismatch conflict and returns the
  version to retry against. The spec gives the loop no retry cap, so the model
  takes fuel, one unit per attempt, and \<open>None\<close> says that the loop is still
  running when the fuel is spent. \<open>s\<close> is the state both closures share (the
  transaction of \<^verbatim>\<open>Producer.Take\<close>).
\<close>

fun TryAppend ::
  "nat \<Rightarrow> (Log \<Rightarrow> string) \<Rightarrow> string \<Rightarrow> ('s \<Rightarrow> error + EventData)
     \<Rightarrow> (Log \<Rightarrow> 's \<Rightarrow> (string \<times> error option) \<times> 's) \<Rightarrow> 's \<Rightarrow> Log
     \<Rightarrow> ((error + string) \<times> 's \<times> Log) option" where
  "TryAppend 0 nv assumed transaction sync s lg = None"
| "TryAppend (Suc fuel) nv assumed transaction sync s lg =
     (case transaction s of
        Inl err \<Rightarrow> Some (Inl err, s, lg)
      | Inr ev \<Rightarrow>
          (case AppendCheck nv lg assumed ev of
             (Inr version, lg') \<Rightarrow> Some (Inr version, s, lg')
           | (Inl err, lg') \<Rightarrow>
               if err = ErrMismatchingVersions
               then (case sync lg' s of
                       ((v, Some err'), s') \<Rightarrow> Some (Inl err', s', lg')
                     | ((v, None), s') \<Rightarrow> TryAppend fuel nv v transaction sync s' lg')
               else Some (Inl err, s, lg')))"

section \<open>The consumer (src/cmd/consumer/main.go, lines 1 to 231)\<close>

text \<open>
  \<^verbatim>\<open>Consumer.apply\<close>. The deferred function runs last: when the body returned no
  error it stores the event's version as the projection version.
\<close>

definition Consumer_apply_body ::
  "(string \<Rightarrow> (string \<times> int64) option) \<Rightarrow> Tx \<Rightarrow> client_Event \<Rightarrow> error option \<times> Tx" where
  "Consumer_apply_body unmarshal tx e =
     (case Decode unmarshal e of
        Inl err \<Rightarrow> (Some (ErrDecodingEvent err), tx)
      | Inr event \<Rightarrow>
          (case GetQuantity tx (Object event) of
             Inl err \<Rightarrow> (Some err, tx)
           | Inr previousQuantity \<Rightarrow>
               let newQuantity =
                     (if Label e = ''take'' then previousQuantity - Quantity event
                      else if Label e = ''put'' then previousQuantity + Quantity event
                      else 0)
               in if sint newQuantity < 1 then Tx_Delete tx (Object event)
                  else Tx_Set tx (Object event) newQuantity))"

definition Consumer_apply ::
  "(string \<Rightarrow> (string \<times> int64) option) \<Rightarrow> Tx \<Rightarrow> client_Event \<Rightarrow> error option \<times> Tx" where
  "Consumer_apply unmarshal tx e =
     (case Consumer_apply_body unmarshal tx e of
        (Some err, tx') \<Rightarrow> (Some err, tx')
      | (None, tx') \<Rightarrow> SetProjectionVersion tx' (Version e))"

text \<open>
  \<^verbatim>\<open>Consumer.Sync\<close>: \<open>Consumer_Sync_onEvent\<close> is the callback handed to \<^verbatim>\<open>Scan\<close>,
  \<open>Consumer_Sync_fn\<close> the closure handed to \<^verbatim>\<open>WithinTx\<close>.
\<close>

definition Consumer_Sync_onEvent ::
  "(string \<Rightarrow> (string \<times> int64) option) \<Rightarrow> string \<Rightarrow> client_Event \<Rightarrow> Tx \<Rightarrow> error option \<times> Tx" where
  "Consumer_Sync_onEvent unmarshal v e tx =
     (if v = Version e then (None, tx) else Consumer_apply unmarshal tx e)"

definition Consumer_Sync_fn ::
  "(string \<Rightarrow> (string \<times> int64) option) \<Rightarrow> Tx \<Rightarrow> Log \<Rightarrow> error option \<times> Tx" where
  "Consumer_Sync_fn unmarshal tx lg =
     (case GetProjectionVersion tx of
        Inl err \<Rightarrow> (Some (ErrReadingProjectionVersion err), tx)
      | Inr v \<Rightarrow>
          (case (if v = '''' then VersionInitial lg else Inr v) of
             Inl err \<Rightarrow> (Some err, tx)
           | Inr sv \<Rightarrow>
               if sv = ''0'' then (None, tx)
               else Scan lg sv (Consumer_Sync_onEvent unmarshal v) tx))"

definition Consumer_Sync ::
  "(string \<Rightarrow> (string \<times> int64) option) \<Rightarrow> DB \<Rightarrow> Log \<Rightarrow> (error option \<times> DB \<times> Log) option" where
  "Consumer_Sync unmarshal d lg =
     WithinTx ReadWrite
       (\<lambda>tx lg. case Consumer_Sync_fn unmarshal tx lg of (err, tx') \<Rightarrow> Some (err, tx', lg))
       d lg"

text \<open>
  \<^verbatim>\<open>Consumer.ScanDB\<close>. The two callbacks answer whether to resume; what else
  they do with the values (printing, in \<^verbatim>\<open>main\<close>) is left out.
\<close>

definition ScanDB_fn :: "(string \<Rightarrow> bool) \<Rightarrow> (string \<Rightarrow> int64 \<Rightarrow> bool) \<Rightarrow> Tx \<Rightarrow> error option" where
  "ScanDB_fn onVersion onObject tx =
     (case GetProjectionVersion tx of
        Inl err \<Rightarrow> Some err
      | Inr v \<Rightarrow>
          if \<not> onVersion v then None
          else ScanObjects tx
                 (\<lambda>object quantity. if \<not> onObject object quantity then Some ErrAbortScan else None))"

definition ScanDB ::
  "(string \<Rightarrow> bool) \<Rightarrow> (string \<Rightarrow> int64 \<Rightarrow> bool) \<Rightarrow> DB \<Rightarrow> Log \<Rightarrow> (error option \<times> DB \<times> Log) option" where
  "ScanDB onVersion onObject d lg =
     WithinTx ReadOnly (\<lambda>tx lg. Some (ScanDB_fn onVersion onObject tx, tx, lg)) d lg"

section \<open>The producer (src/cmd/consumer/main.go, lines 232 to 589)\<close>

text \<open>\<^verbatim>\<open>Producer.apply\<close>, the producer's own copy of the apply function.\<close>

definition Producer_apply_body ::
  "(string \<Rightarrow> (string \<times> int64) option) \<Rightarrow> Tx \<Rightarrow> client_Event \<Rightarrow> error option \<times> Tx" where
  "Producer_apply_body unmarshal tx e =
     (case Decode unmarshal e of
        Inl err \<Rightarrow> (Some (ErrDecodingEvent err), tx)
      | Inr event \<Rightarrow>
          (case GetQuantity tx (Object event) of
             Inl err \<Rightarrow> (Some err, tx)
           | Inr previousQuantity \<Rightarrow>
               let newQuantity =
                     (if Label e = ''take'' then previousQuantity - Quantity event
                      else if Label e = ''put'' then previousQuantity + Quantity event
                      else 0)
               in if sint newQuantity < 1 then Tx_Delete tx (Object event)
                  else Tx_Set tx (Object event) newQuantity))"

definition Producer_apply ::
  "(string \<Rightarrow> (string \<times> int64) option) \<Rightarrow> Tx \<Rightarrow> client_Event \<Rightarrow> error option \<times> Tx" where
  "Producer_apply unmarshal tx e =
     (case Producer_apply_body unmarshal tx e of
        (Some err, tx') \<Rightarrow> (Some err, tx')
      | (None, tx') \<Rightarrow> SetProjectionVersion tx' (Version e))"

text \<open>
  \<^verbatim>\<open>Producer.sync\<close>. The callback handed to \<^verbatim>\<open>Scan\<close> assigns the named result
  \<^verbatim>\<open>latestVersion\<close> after each event it applied, so the state of the scan is the
  pair of that variable and the transaction. The result is the pair
  \<^verbatim>\<open>(latestVersion, err)\<close> of the source, with the transaction as it is left.
\<close>

definition Producer_sync_onEvent ::
  "(string \<Rightarrow> (string \<times> int64) option) \<Rightarrow> string \<Rightarrow> client_Event \<Rightarrow> string \<times> Tx
     \<Rightarrow> error option \<times> string \<times> Tx" where
  "Producer_sync_onEvent unmarshal v e s =
     (case s of (latestVersion, tx) \<Rightarrow>
        if v = Version e then (None, latestVersion, tx)
        else (case Producer_apply unmarshal tx e of
                (Some err, tx') \<Rightarrow> (Some err, latestVersion, tx')
              | (None, tx') \<Rightarrow> (None, Version e, tx')))"

definition Producer_sync ::
  "(string \<Rightarrow> (string \<times> int64) option) \<Rightarrow> Log \<Rightarrow> Tx \<Rightarrow> (string \<times> error option) \<times> Tx" where
  "Producer_sync unmarshal lg tx =
     (case GetProjectionVersion tx of
        Inl err \<Rightarrow> (('''', Some (ErrReadingProjectionVersion err)), tx)
      | Inr v \<Rightarrow>
          (case (if v = '''' then VersionInitial lg else Inr v) of
             Inl err \<Rightarrow> (('''', Some err), tx)
           | Inr sv \<Rightarrow>
               if sv = ''0'' then ((sv, None), tx)
               else (case Scan lg sv (Producer_sync_onEvent unmarshal v) ('''', tx) of
                       (err, latestVersion, tx') \<Rightarrow> ((latestVersion, err), tx'))))"

text \<open>
  \<^verbatim>\<open>Producer.Sync(ctx, tx)\<close> has two branches. \<open>Producer_Sync_tx\<close> is the branch
  \<^verbatim>\<open>tx != nil\<close>: it runs \<^verbatim>\<open>sync\<close> on the caller's transaction and opens none.
  \<open>Producer_Sync\<close> is the branch \<^verbatim>\<open>tx == nil\<close>: a transaction of its own, whose
  closure assigns the captured \<^verbatim>\<open>latestVersion\<close>.
\<close>

definition Producer_Sync_tx ::
  "(string \<Rightarrow> (string \<times> int64) option) \<Rightarrow> Log \<Rightarrow> Tx \<Rightarrow> (string \<times> error option) \<times> Tx" where
  "Producer_Sync_tx unmarshal lg tx = Producer_sync unmarshal lg tx"

definition Producer_Sync ::
  "(string \<Rightarrow> (string \<times> int64) option) \<Rightarrow> DB \<Rightarrow> Log
     \<Rightarrow> ((string \<times> error option) \<times> DB \<times> Log) option" where
  "Producer_Sync unmarshal d lg =
     (case WithinTx ReadWrite
             (\<lambda>tx w. case w of (latestVersion, lg) \<Rightarrow>
                (case Producer_sync unmarshal lg tx of
                   ((latestVersion', err), tx') \<Rightarrow> Some (err, tx', (latestVersion', lg))))
             d ('''', lg) of
        None \<Rightarrow> None
      | Some (err, d', (latestVersion, lg')) \<Rightarrow> Some ((latestVersion, err), d', lg'))"

definition ValidateInput :: "string \<Rightarrow> int64 \<Rightarrow> error option" where
  "ValidateInput object quantity =
     (if object = '''' then Some ErrInvalidObject
      else if sint quantity < 0 then Some ErrInvalidQuantity
      else None)"

text \<open>\<^verbatim>\<open>Producer.Put\<close>: no transaction is opened, the database is not an input of any step.\<close>

definition Producer_Put ::
  "(Event \<Rightarrow> error + string) \<Rightarrow> (Log \<Rightarrow> string) \<Rightarrow> string \<Rightarrow> int64 \<Rightarrow> DB \<Rightarrow> Log
     \<Rightarrow> error option \<times> DB \<times> Log" where
  "Producer_Put marshal nv object quantity d lg =
     (case ValidateInput object quantity of
        Some err \<Rightarrow> (Some err, d, lg)
      | None \<Rightarrow>
          (case Encode marshal \<lparr>Operation = ''put'', Object = object, Quantity = quantity\<rparr> of
             Inl err \<Rightarrow> (Some err, d, lg)
           | Inr ev \<Rightarrow>
               (case Append nv lg ev of
                  (Inl err, lg') \<Rightarrow> (Some err, d, lg')
                | (Inr version, lg') \<Rightarrow> (None, d, lg'))))"

text \<open>
  \<^verbatim>\<open>Producer.Take\<close>. \<open>Take_transaction\<close> is the first closure handed to
  \<^verbatim>\<open>TryAppend\<close> (the pre-check and the event it builds), the second closure is
  \<^verbatim>\<open>p.Sync(ctx, t)\<close> on the transaction of the take; \<open>Producer_Take_fn\<close> is the
  closure handed to \<^verbatim>\<open>WithinTx\<close>.
\<close>

definition Take_transaction ::
  "(Event \<Rightarrow> error + string) \<Rightarrow> string \<Rightarrow> int64 \<Rightarrow> Tx \<Rightarrow> error + EventData" where
  "Take_transaction marshal object quantity t =
     (case GetQuantity t object of
        Inl err \<Rightarrow> Inl err
      | Inr q \<Rightarrow>
          if sint (q - quantity) < 0 then Inl ErrInsuffQuant
          else Encode marshal \<lparr>Operation = ''take'', Object = object, Quantity = quantity\<rparr>)"

definition Producer_Take_fn ::
  "nat \<Rightarrow> (string \<Rightarrow> (string \<times> int64) option) \<Rightarrow> (Event \<Rightarrow> error + string) \<Rightarrow> (Log \<Rightarrow> string)
     \<Rightarrow> string \<Rightarrow> int64 \<Rightarrow> Tx \<Rightarrow> Log \<Rightarrow> (error option \<times> Tx \<times> Log) option" where
  "Producer_Take_fn fuel unmarshal marshal nv object quantity t lg =
     (case GetProjectionVersion t of
        Inl err \<Rightarrow> Some (Some (ErrReadingProjectionVersion err), t, lg)
      | Inr v \<Rightarrow>
          (case TryAppend fuel nv v (Take_transaction marshal object quantity)
                  (Producer_Sync_tx unmarshal) t lg of
             None \<Rightarrow> None
           | Some (Inl err, t', lg') \<Rightarrow> Some (Some err, t', lg')
           | Some (Inr version, t', lg') \<Rightarrow> Some (None, t', lg')))"

definition Producer_Take ::
  "nat \<Rightarrow> (string \<Rightarrow> (string \<times> int64) option) \<Rightarrow> (Event \<Rightarrow> error + string) \<Rightarrow> (Log \<Rightarrow> string)
     \<Rightarrow> string \<Rightarrow> int64 \<Rightarrow> DB \<Rightarrow> Log \<Rightarrow> (error option \<times> DB \<times> Log) option" where
  "Producer_Take fuel unmarshal marshal nv object quantity d lg =
     (case ValidateInput object quantity of
        Some err \<Rightarrow> Some (Some err, d, lg)
      | None \<Rightarrow> WithinTx ReadWrite (Producer_Take_fn fuel unmarshal marshal nv object quantity) d lg)"

section \<open>Auxiliary notions\<close>

text \<open>The state \<^verbatim>\<open>apply\<close> leaves when the event decodes and the stored quantity parses.\<close>

definition applied :: "Tx \<Rightarrow> client_Event \<Rightarrow> string \<Rightarrow> int64 \<Rightarrow> Tx" where
  "applied tx e object q' =
     AList.update ''version'' (Version e)
       (if sint q' < 1 then AList.delete (''o_'' @ object) tx
        else AList.update (''o_'' @ object) (Sprintf_d q') tx)"

text \<open>
  The invariant of the projection: every entry of an object holds the decimal
  rendering of a quantity that is at least 1.
\<close>

definition quantities_ok :: "Tx \<Rightarrow> bool" where
  "quantities_ok t =
     (\<forall>object s. map_of t (''o_'' @ object) = Some s \<longrightarrow> (\<exists>q. s = Sprintf_d q \<and> 1 \<le> sint q))"

text \<open>
  The events a synchronization has to apply for a marker \<open>v\<close>: all of the log
  when nothing was synchronized yet (the empty marker), and otherwise those
  behind the event that carries \<open>v\<close>. A log is well formed when its versions
  are pairwise distinct and none is the empty string or the sentinel of the
  empty log. \<open>replay\<close> is the loop of a scan whose callback is \<^verbatim>\<open>apply\<close>.
\<close>

definition events_after :: "string \<Rightarrow> Log \<Rightarrow> client_Event list" where
  "events_after v lg = (if v = '''' then lg else tl (dropWhile (\<lambda>e. Version e \<noteq> v) lg))"

definition log_ok :: "Log \<Rightarrow> bool" where
  "log_ok lg = (distinct (map Version lg) \<and> (\<forall>e\<in>set lg. Version e \<noteq> '''' \<and> Version e \<noteq> ''0''))"

definition replay :: "(string \<Rightarrow> (string \<times> int64) option) \<Rightarrow> client_Event list \<Rightarrow> Tx \<Rightarrow> error option \<times> Tx" where
  "replay unmarshal es t = scan_events (\<lambda>e tx. Consumer_apply unmarshal tx e) es t"

text \<open>
  Replaying a log one event at a time: the consumer runs one synchronization
  pass after each event the log accepts, as its listener does, each pass in a
  transaction of its own.
\<close>

fun sync_each :: "(string \<Rightarrow> (string \<times> int64) option) \<Rightarrow> DB \<Rightarrow> Log \<Rightarrow> client_Event list \<Rightarrow> DB" where
  "sync_each unmarshal d seen [] = d"
| "sync_each unmarshal d seen (e # es) =
     (case Consumer_Sync unmarshal d (seen @ [e]) of
        None \<Rightarrow> d
      | Some (err, d', lg) \<Rightarrow> sync_each unmarshal d' (seen @ [e]) es)"

section \<open>Sample values\<close>

text \<open>
  Concrete stand-ins for the parameters, used where a statement is evaluated on
  an example: a JSON decoder that knows a few payloads, an encoder that cannot
  fail, and a log that numbers its events \<^verbatim>\<open>1\<close>, \<^verbatim>\<open>2\<close>, and so on.
\<close>

definition sample_unmarshal :: "string \<Rightarrow> (string \<times> int64) option" where
  "sample_unmarshal p =
     (if p = ''{object:apple,quantity:5}'' then Some (''apple'', 5)
      else if p = ''{object:apple,quantity:3}'' then Some (''apple'', 3)
      else if p = ''{object:apple,quantity:2}'' then Some (''apple'', 2)
      else if p = ''{object:pear,quantity:1}'' then Some (''pear'', 1)
      else if p = ''{object:apple,quantity:1}'' then Some (''apple'', 1)
      else if p = ''{object:apple,quantity:9223372036854775807}''
        then Some (''apple'', 9223372036854775807)
      else None)"

definition sample_marshal :: "Event \<Rightarrow> error + string" where
  "sample_marshal e = Inr (''{object:'' @ Object e @ '',quantity:'' @ Sprintf_d (Quantity e) @ ''}'')"

definition sample_nv :: "Log \<Rightarrow> string" where
  "sample_nv lg = digits (Suc (length lg))"

text \<open>A log of four events: put 5 apples, take 3, put 1 pear, take it.\<close>

definition sample_log :: Log where
  "sample_log =
     [\<lparr>Label = ''put'', PayloadJSON = ''{object:apple,quantity:5}'', Version = ''1''\<rparr>,
      \<lparr>Label = ''take'', PayloadJSON = ''{object:apple,quantity:3}'', Version = ''2''\<rparr>,
      \<lparr>Label = ''put'', PayloadJSON = ''{object:pear,quantity:1}'', Version = ''3''\<rparr>,
      \<lparr>Label = ''take'', PayloadJSON = ''{object:pear,quantity:1}'', Version = ''4''\<rparr>]"

section \<open>Facts about the decimal rendering\<close>

text \<open>
  What \<^verbatim>\<open>Tx.Set\<close> writes, \<^verbatim>\<open>Tx.GetQuantity\<close> reads back unchanged: parsing the
  rendering of any 64-bit quantity returns that quantity.
\<close>

declare digits.simps [simp del]

lemma digits_small: "n < 10 \<Longrightarrow> digits n = [digit_char n]"
  by (simp add: digits.simps)

lemma digits_big: "\<not> n < 10 \<Longrightarrow> digits n = digits (n div 10) @ [digit_char (n mod 10)]"
  by (subst digits.simps) simp

lemma below_ten: "d < 10 \<Longrightarrow> d \<in> {0, 1, 2, 3, 4, 5, 6, 7, 8, 9::nat}"
  by auto

lemma digit_char_is_digit: "d < 10 \<Longrightarrow> is_digit (digit_char d)"
  by (drule below_ten) (auto simp: digit_char_def is_digit_def)

lemma digit_val_digit_char: "d < 10 \<Longrightarrow> digit_val (digit_char d) = d"
  by (drule below_ten) (auto simp: digit_char_def digit_val_def)

lemma digit_char_not_sign: "d < 10 \<Longrightarrow> digit_char d \<noteq> CHR ''-'' \<and> digit_char d \<noteq> CHR ''+''"
  by (drule below_ten) (auto simp: digit_char_def)

lemma below_of_times_ten: "(x::nat) * 10 + y < k \<Longrightarrow> x < k"
  by arith

lemma parse_digits_append:
  "parse_digits acc (xs @ ys) =
     (case parse_digits acc xs of Inl err \<Rightarrow> Inl err | Inr a \<Rightarrow> parse_digits a ys)"
  by (induction xs arbitrary: acc) auto

lemma parse_digits_digits:
  "acc * 10 ^ length (digits n) + n < 2 ^ 64 \<Longrightarrow>
     parse_digits acc (digits n) = Inr (acc * 10 ^ length (digits n) + n)"
proof (induction n arbitrary: acc rule: digits.induct)
  case (1 n)
  show ?case
  proof (cases "n < 10")
    case True
    then show ?thesis
      using "1.prems" by (simp add: digits_small digit_char_is_digit digit_val_digit_char)
  next
    case False
    let ?a = "acc * 10 ^ length (digits (n div 10)) + n div 10"
    have d: "n mod 10 < 10" by simp
    have total: "?a * 10 + n mod 10 = acc * 10 ^ length (digits n) + n"
      using False by (simp add: digits_big [of n] algebra_simps)
    have bound: "?a * 10 + n mod 10 < 2 ^ 64"
      unfolding total using "1.prems" .
    from bound have "?a < 2 ^ 64" by (rule below_of_times_ten)
    then have "parse_digits acc (digits (n div 10)) = Inr ?a"
      using False "1.IH" by simp
    then have "parse_digits acc (digits n) = parse_digits ?a [digit_char (n mod 10)]"
      using False by (simp add: digits_big [of n] parse_digits_append)
    also have "\<dots> = Inr (?a * 10 + n mod 10)"
      using d bound by (simp add: digit_char_is_digit digit_val_digit_char)
    finally show ?thesis using total by simp
  qed
qed

lemma digits_not_Nil: "digits n \<noteq> []"
  by (subst digits.simps) simp

lemma hd_digits_digit: "\<exists>d<10. hd (digits n) = digit_char d"
proof (induction n rule: digits.induct)
  case (1 n)
  show ?case
  proof (cases "n < 10")
    case True
    then show ?thesis by (auto simp: digits_small)
  next
    case False
    then show ?thesis
      using "1.IH" by (simp add: digits_big [of n] digits_not_Nil)
  qed
qed

lemma hd_digits_not_sign: "hd (digits n) \<noteq> CHR ''-'' \<and> hd (digits n) \<noteq> CHR ''+''"
proof -
  obtain d where "d < 10" and "hd (digits n) = digit_char d"
    using hd_digits_digit [of n] by blast
  then show ?thesis
    using digit_char_not_sign [of d] by simp
qed

lemma ParseUint_digits: "n < 2 ^ 64 \<Longrightarrow> ParseUint (digits n) = Inr n"
  by (simp add: ParseUint_def digits_not_Nil parse_digits_digits)

lemma sint_int64_bounds: "- (2 ^ 63) \<le> sint (n :: int64) \<and> sint n < 2 ^ 63"
  using sint_ge [of n] sint_lt [of n] by simp

lemma ParseInt_Sprintf_d: "ParseInt (Sprintf_d n) = Inr n"
proof (cases "sint n < 0")
  case True
  let ?m = "nat (- sint n)"
  have b: "?m \<le> 2 ^ 63" using sint_int64_bounds [of n] True by (simp add: nat_le_iff)
  then have b64: "?m < 2 ^ 64" by simp
  have w: "- (word_of_nat ?m :: int64) = n"
    using True by (simp add: of_nat_nat)
  show ?thesis
    using True b w by (simp add: Sprintf_d_def ParseInt_def ParseUint_digits [OF b64] Let_def)
next
  case False
  let ?m = "nat (sint n)"
  have b: "?m < 2 ^ 63" using sint_int64_bounds [of n] False by (simp add: nat_less_iff)
  then have b64: "?m < 2 ^ 64" by simp
  have w: "(word_of_nat ?m :: int64) = n"
    using False by (simp add: of_nat_nat)
  show ?thesis
    using False b w hd_digits_not_sign [of ?m]
    by (simp add: Sprintf_d_def ParseInt_def ParseUint_digits [OF b64] Let_def digits_not_Nil)
qed

section \<open>Facts about the store and about apply\<close>

lemma GetQuantity_unseen:
  "map_of t (''o_'' @ object) = None \<Longrightarrow> GetQuantity t object = Inr 0"
  by (simp add: GetQuantity_def Tx_get_def)

lemma GetQuantity_stored:
  "map_of t (''o_'' @ object) = Some (Sprintf_d q) \<Longrightarrow> GetQuantity t object = Inr q"
  by (simp add: GetQuantity_def Tx_get_def ParseInt_Sprintf_d)

lemma GetProjectionVersion_def2:
  "GetProjectionVersion t = Inr (case map_of t ''version'' of None \<Rightarrow> '''' | Some v \<Rightarrow> v)"
  by (simp add: GetProjectionVersion_def Tx_get_def split: option.splits)

lemma Decode_Inr_iff:
  "Decode unmarshal e = Inr E \<longleftrightarrow>
     (Label e = ''put'' \<or> Label e = ''take'')
     \<and> (\<exists>object quantity. unmarshal (PayloadJSON e) = Some (object, quantity)
          \<and> E = \<lparr>Operation = Label e, Object = object, Quantity = quantity\<rparr>)"
  by (auto simp: Decode_def split: option.splits)

lemma Decode_Operation: "Decode unmarshal e = Inr E \<Longrightarrow> Operation E = Label e"
  by (auto simp: Decode_Inr_iff)

lemma Decode_Label: "Decode unmarshal e = Inr E \<Longrightarrow> Label e = ''put'' \<or> Label e = ''take''"
  by (auto simp: Decode_Inr_iff)

lemma Consumer_apply_ok:
  assumes "Decode unmarshal e = Inr E" and "GetQuantity tx (Object E) = Inr q"
  shows "Consumer_apply unmarshal tx e =
           (None, applied tx e (Object E)
                    (if Operation E = ''take'' then q - Quantity E else q + Quantity E))"
  using assms Decode_Label [OF assms(1)] Decode_Operation [OF assms(1)]
  by (auto simp: Consumer_apply_def Consumer_apply_body_def applied_def Tx_Delete_def Tx_Set_def
      Tx_delete_def Tx_set_def SetProjectionVersion_def Let_def)

lemma Consumer_apply_error:
  "Consumer_apply unmarshal tx e = (Some err, tx') \<Longrightarrow> tx' = tx"
  by (auto simp: Consumer_apply_def Consumer_apply_body_def Tx_Delete_def Tx_Set_def
      Tx_delete_def Tx_set_def SetProjectionVersion_def Let_def split: sum.splits if_splits)

lemma Producer_apply_eq: "Producer_apply unmarshal = Consumer_apply unmarshal"
  by (intro ext) (simp add: Producer_apply_def Consumer_apply_def Producer_apply_body_def
      Consumer_apply_body_def)

lemma map_of_applied:
  "map_of (applied tx e object q') k =
     (if k = ''version'' then Some (Version e)
      else if k = ''o_'' @ object then (if sint q' < 1 then None else Some (Sprintf_d q'))
      else map_of tx k)"
  by (auto simp: applied_def update_conv' delete_conv')


lemma sint_add_exact:
  "- (2 ^ 63) \<le> sint a + sint b \<Longrightarrow> sint a + sint b < 2 ^ 63 \<Longrightarrow> sint (a + b :: int64) = sint a + sint b"
  by (simp add: sint_word_ariths signed_take_bit_int_eq_self)

lemma sint_diff_exact:
  "- (2 ^ 63) \<le> sint a - sint b \<Longrightarrow> sint a - sint b < 2 ^ 63 \<Longrightarrow> sint (a - b :: int64) = sint a - sint b"
  by (simp add: sint_word_ariths signed_take_bit_int_eq_self)

lemmas model_defs =
  Consumer_apply_def Consumer_apply_body_def Decode_def GetQuantity_def GetProjectionVersion_def
  Tx_get_def Tx_set_def Tx_delete_def Tx_Set_def Tx_Delete_def SetProjectionVersion_def
  Sprintf_d_def digits_small digits_big digit_char_def
  ParseInt_def ParseUint_def is_digit_def digit_val_def sample_unmarshal_def

section \<open>The invariant is kept by apply, by a scan and by a synchronization\<close>

lemma quantities_ok_Nil: "quantities_ok []"
  by (simp add: quantities_ok_def)

lemma quantities_ok_applied: "quantities_ok t \<Longrightarrow> quantities_ok (applied t e object q')"
  unfolding quantities_ok_def map_of_applied by (auto split: if_splits)

lemma quantities_ok_GetQuantity:
  assumes "quantities_ok t"
  shows "\<exists>q. GetQuantity t object = Inr q"
proof (cases "map_of t (''o_'' @ object)")
  case None
  then show ?thesis by (simp add: GetQuantity_unseen)
next
  case (Some s)
  then obtain q where "s = Sprintf_d q"
    using assms by (auto simp: quantities_ok_def)
  with Some show ?thesis by (auto simp: GetQuantity_stored)
qed

lemma Consumer_apply_cases:
  assumes "quantities_ok t"
  obtains (failed) err where "Consumer_apply unmarshal t e = (Some (ErrDecodingEvent err), t)"
      and "Decode unmarshal e = Inl err"
  | (succeeded) E q where "Decode unmarshal e = Inr E" and "GetQuantity t (Object E) = Inr q"
      and "Consumer_apply unmarshal t e =
             (None, applied t e (Object E)
                      (if Operation E = ''take'' then q - Quantity E else q + Quantity E))"
proof (cases "Decode unmarshal e")
  case (Inl err)
  then have "Consumer_apply unmarshal t e = (Some (ErrDecodingEvent err), t)"
    by (simp add: Consumer_apply_def Consumer_apply_body_def)
  then show ?thesis using Inl by (rule failed)
next
  case (Inr E)
  obtain q where q: "GetQuantity t (Object E) = Inr q"
    using quantities_ok_GetQuantity [OF assms] by blast
  show ?thesis
    by (rule succeeded [OF Inr q Consumer_apply_ok [OF Inr q]])
qed

lemma quantities_ok_Consumer_apply:
  assumes "quantities_ok t"
  shows "quantities_ok (snd (Consumer_apply unmarshal t e))"
  using assms
  by (cases rule: Consumer_apply_cases [OF assms, of unmarshal e])
     (simp_all add: quantities_ok_applied)

lemma quantities_ok_scan_events:
  assumes "\<And>e s. ok (st s) \<Longrightarrow> ok (st (snd (fn e s)))"
  shows "ok (st s) \<Longrightarrow> ok (st (snd (scan_events fn es s)))"
proof (induction es arbitrary: s)
  case Nil
  then show ?case by simp
next
  case (Cons e es)
  obtain r s' where f: "fn e s = (r, s')" by (cases "fn e s")
  have ok': "ok (st s')" using assms [OF Cons.prems, of e] f by simp
  show ?case
  proof (cases r)
    case None
    with f Cons.IH [OF ok'] show ?thesis by simp
  next
    case (Some err)
    with f ok' show ?thesis by simp
  qed
qed

lemma quantities_ok_replay:
  "quantities_ok t \<Longrightarrow> quantities_ok (snd (scan_events (\<lambda>e tx. Consumer_apply unmarshal tx e) es t))"
  using quantities_ok_scan_events [where ok = quantities_ok and st = "\<lambda>t. t"
      and fn = "\<lambda>e tx. Consumer_apply unmarshal tx e"]
  by (simp add: quantities_ok_Consumer_apply)

lemma quantities_ok_retained:
  assumes "quantities_ok t" and "map_of t (''o_'' @ object) = Some s"
  shows "\<exists>q. s = Sprintf_d q \<and> GetQuantity t object = Inr q \<and> 1 \<le> sint q"
proof -
  obtain q where "s = Sprintf_d q" and "1 \<le> sint q"
    using assms by (auto simp: quantities_ok_def)
  with assms(2) show ?thesis by (auto simp: GetQuantity_stored)
qed


lemma quantities_ok_onEvent:
  "quantities_ok t \<Longrightarrow> quantities_ok (snd (Consumer_Sync_onEvent unmarshal v e t))"
  by (simp add: Consumer_Sync_onEvent_def quantities_ok_Consumer_apply)

lemma quantities_ok_Scan:
  assumes "\<And>e s. ok (st s) \<Longrightarrow> ok (st (snd (fn e s)))"
  shows "ok (st s) \<Longrightarrow> ok (st (snd (Scan lg version fn s)))"
  using quantities_ok_scan_events [of ok st fn, OF assms]
  by (simp add: Scan_def Let_def)

lemma quantities_ok_Consumer_Sync_fn:
  "quantities_ok t \<Longrightarrow> quantities_ok (snd (Consumer_Sync_fn unmarshal t lg))"
  using quantities_ok_Scan [where ok = quantities_ok and st = "\<lambda>t. t"
      and fn = "Consumer_Sync_onEvent unmarshal v" for v]
  by (auto simp: Consumer_Sync_fn_def quantities_ok_onEvent split: sum.splits)

lemma quantities_ok_Consumer_Sync:
  assumes "quantities_ok d" and "Consumer_Sync unmarshal d lg = Some (r, d', lg')"
  shows "quantities_ok d'"
proof -
  obtain r0 t where f: "Consumer_Sync_fn unmarshal d lg = (r0, t)"
    by (cases "Consumer_Sync_fn unmarshal d lg")
  have "quantities_ok t"
    using quantities_ok_Consumer_Sync_fn [OF assms(1), of unmarshal lg] f by simp
  with assms f show ?thesis
    by (auto simp: Consumer_Sync_def WithinTx_def split: option.splits)
qed

lemma sample_replay:
  "scan_events (\<lambda>e tx. Consumer_apply sample_unmarshal tx e) sample_log []
     = (None, [(''o_apple'', ''2''), (''version'', ''4'')])"
  by (simp add: sample_log_def model_defs Let_def)

section \<open>Facts about the read query\<close>

text \<open>
  Halting at the version callback ends the query without an error. An error of
  the object callback leaves \<^verbatim>\<open>scanPrefix\<close> through the \<^verbatim>\<open>return err\<close> inside its
  loop, whatever the error is.
\<close>

lemma ScanDB_onVersion_halts:
  "GetProjectionVersion d = Inr v \<Longrightarrow> \<not> onVersion v \<Longrightarrow> ScanDB onVersion onObject d lg = Some (None, d, lg)"
  by (simp add: ScanDB_def ScanDB_fn_def WithinTx_def)

lemma scanPrefix_returns_callback_error:
  "scan_items fn (sort_key fst (filter (\<lambda>(key, v). prefix p key) t)) = Some err
     \<Longrightarrow> scanPrefix t p fn = Some err"
  by (simp add: scanPrefix_def)

lemma ScanDB_onObject_halts:
  assumes "GetProjectionVersion d = Inr v" and "onVersion v"
    and "sort_key fst (filter (\<lambda>(key, v). prefix ''o_'' key) d) = (key, s) # rest"
    and "ParseInt s = Inr q" and "\<not> onObject (drop (length ''o_'') key) q"
  shows "ScanDB onVersion onObject d lg = Some (Some ErrAbortScan, d, lg)"
  using assms by (simp add: ScanDB_def ScanDB_fn_def WithinTx_def ScanObjects_def scanPrefix_def)

section \<open>A synchronization pass replays the events behind the marker\<close>

lemma replay_Nil [simp]: "replay unmarshal [] t = (None, t)"
  by (simp add: replay_def)

lemma replay_Cons:
  "replay unmarshal (e # es) t =
     (case Consumer_apply unmarshal t e of
        (Some err, t') \<Rightarrow> (Some err, t')
      | (None, t') \<Rightarrow> replay unmarshal es t')"
  by (simp add: replay_def split: prod.splits option.splits)

lemma Consumer_apply_marker:
  "Consumer_apply unmarshal t e = (None, t') \<Longrightarrow> GetProjectionVersion t' = Inr (Version e)"
  by (auto simp: Consumer_apply_def SetProjectionVersion_def Tx_set_def GetProjectionVersion_def2
      update_conv' split: prod.splits option.splits)

lemma replay_marker:
  "replay unmarshal es t = (None, t') \<Longrightarrow> es \<noteq> [] \<Longrightarrow> GetProjectionVersion t' = Inr (Version (last es))"
proof (induction es arbitrary: t)
  case Nil
  then show ?case by simp
next
  case (Cons e es)
  obtain r t1 where a: "Consumer_apply unmarshal t e = (r, t1)"
    by (cases "Consumer_apply unmarshal t e")
  with Cons.prems have r: "r = None" and rest: "replay unmarshal es t1 = (None, t')"
    by (auto simp: replay_Cons split: option.splits)
  show ?case
  proof (cases "es = []")
    case True
    with a r rest show ?thesis by (simp add: Consumer_apply_marker)
  next
    case False
    with Cons.IH [OF rest] show ?thesis by simp
  qed
qed

lemma replay_ok:
  assumes "quantities_ok t" and "\<forall>e\<in>set es. \<exists>E. Decode unmarshal e = Inr E"
  shows "fst (replay unmarshal es t) = None"
  using assms
proof (induction es arbitrary: t)
  case Nil
  then show ?case by simp
next
  case (Cons e es)
  from Cons.prems(1) show ?case
  proof (cases rule: Consumer_apply_cases [of t unmarshal e])
    case (failed err)
    with Cons.prems(2) show ?thesis by auto
  next
    case (succeeded E q)
    let ?t' = "applied t e (Object E) (if Operation E = ''take'' then q - Quantity E else q + Quantity E)"
    have "quantities_ok ?t'" using Cons.prems(1) by (rule quantities_ok_applied)
    then have "fst (replay unmarshal es ?t') = None"
      using Cons.IH Cons.prems(2) by simp
    with succeeded(3) show ?thesis by (simp add: replay_Cons)
  qed
qed

lemma quantities_ok_replay': "quantities_ok t \<Longrightarrow> quantities_ok (snd (replay unmarshal es t))"
  unfolding replay_def by (rule quantities_ok_replay)

lemma scan_onEvent_is_replay:
  "\<forall>e\<in>set es. Version e \<noteq> v \<Longrightarrow>
     scan_events (Consumer_Sync_onEvent unmarshal v) es t = replay unmarshal es t"
proof (induction es arbitrary: t)
  case Nil
  then show ?case by simp
next
  case (Cons e es)
  then show ?case
    by (auto simp: replay_Cons Consumer_Sync_onEvent_def split: prod.splits option.splits)
qed

lemma dropWhile_marker:
  assumes "log_ok lg" and "v \<in> Version ` set lg"
  obtains b where "dropWhile (\<lambda>e. Version e \<noteq> v) lg = b # events_after v lg"
    and "Version b = v" and "\<forall>e\<in>set (events_after v lg). Version e \<noteq> v"
proof -
  let ?d = "dropWhile (\<lambda>e. Version e \<noteq> v) lg"
  have ne: "?d \<noteq> []" using assms(2) by (auto simp: dropWhile_eq_Nil_conv)
  then obtain b ys where d: "?d = b # ys" by (cases ?d) auto
  have hb: "Version b = v" using hd_dropWhile [OF ne] d by simp
  have "map Version ?d = dropWhile (\<lambda>x. x \<noteq> v) (map Version lg)"
    by (simp add: dropWhile_map comp_def)
  then have "distinct (map Version ?d)"
    using assms(1) by (simp add: log_ok_def)
  with d hb have nv: "\<forall>e\<in>set ys. Version e \<noteq> v" by (auto simp: image_iff)
  have v: "v \<noteq> ''''" using assms unfolding log_ok_def by auto
  have "events_after v lg = ys" using d v by (simp add: events_after_def)
  with d hb nv that show thesis by simp
qed

lemma Consumer_Sync_fn_is_replay:
  assumes "log_ok lg" and "GetProjectionVersion t = Inr v" and "v = '''' \<or> v \<in> Version ` set lg"
  shows "Consumer_Sync_fn unmarshal t lg = replay unmarshal (events_after v lg) t"
proof (cases "v = ''''")
  case True
  show ?thesis
  proof (cases lg)
    case Nil
    with True assms(2) show ?thesis
      by (simp add: Consumer_Sync_fn_def VersionInitial_def events_after_def)
  next
    case (Cons e es)
    have nv: "\<forall>x\<in>set lg. Version x \<noteq> ''''" using assms(1) unfolding log_ok_def by auto
    have "Version e \<noteq> ''0''" using assms(1) Cons unfolding log_ok_def by simp
    then have "Consumer_Sync_fn unmarshal t lg = scan_events (Consumer_Sync_onEvent unmarshal '''') lg t"
      using True assms(2) Cons
      by (simp add: Consumer_Sync_fn_def VersionInitial_def Scan_def del: scan_events.simps)
    also have "\<dots> = replay unmarshal lg t"
      using nv by (rule scan_onEvent_is_replay)
    finally show ?thesis using True by (simp add: events_after_def)
  qed
next
  case False
  with assms(3) have mem: "v \<in> Version ` set lg" by simp
  then have v0: "v \<noteq> ''0''" using assms(1) unfolding log_ok_def by auto
  from assms(1) mem obtain b where d: "dropWhile (\<lambda>e. Version e \<noteq> v) lg = b # events_after v lg"
    and hb: "Version b = v" and nv: "\<forall>e\<in>set (events_after v lg). Version e \<noteq> v"
    by (rule dropWhile_marker)
  have "Consumer_Sync_fn unmarshal t lg
          = scan_events (Consumer_Sync_onEvent unmarshal v) (b # events_after v lg) t"
    using False v0 assms(2) d by (simp add: Consumer_Sync_fn_def Scan_def del: scan_events.simps)
  also have "\<dots> = scan_events (Consumer_Sync_onEvent unmarshal v) (events_after v lg) t"
    using hb by (simp add: Consumer_Sync_onEvent_def)
  also have "\<dots> = replay unmarshal (events_after v lg) t"
    using nv by (rule scan_onEvent_is_replay)
  finally show ?thesis .
qed

lemma events_after_head:
  assumes "log_ok lg" and "lg \<noteq> []"
  shows "events_after (Version (last lg)) lg = []"
proof -
  obtain xs l where lg: "lg = xs @ [l]"
    using assms(2) by (metis append_butlast_last_id)
  have "\<forall>x\<in>set xs. Version x \<noteq> Version l"
    using assms(1) unfolding log_ok_def lg by (auto simp: image_iff)
  then have "dropWhile (\<lambda>e. Version e \<noteq> Version l) (xs @ [l]) = [l]"
    by (simp add: dropWhile_append2)
  moreover have "Version l \<noteq> ''''"
    using assms(1) unfolding log_ok_def lg by auto
  ultimately show ?thesis by (simp add: events_after_def lg)
qed

lemma last_events_after:
  assumes "events_after v lg \<noteq> []"
  shows "last (events_after v lg) = last lg"
proof (cases "v = ''''")
  case True
  then show ?thesis by (simp add: events_after_def)
next
  case False
  let ?d = "dropWhile (\<lambda>e. Version e \<noteq> v) lg"
  have t: "tl ?d \<noteq> []" using assms False by (simp add: events_after_def)
  then have d: "?d \<noteq> []" by (metis list.sel(2))
  have "last lg = last (takeWhile (\<lambda>e. Version e \<noteq> v) lg @ ?d)" by simp
  also have "\<dots> = last ?d" using d by (rule last_appendR)
  also have "\<dots> = last (tl ?d)" using t by (simp add: last_tl)
  finally show ?thesis using False by (simp add: events_after_def)
qed

lemma events_after_Nil_iff:
  assumes "log_ok lg" and "\<exists>b\<in>set lg. Version b = v"
  shows "events_after v lg = [] \<longleftrightarrow> v = head_version lg"
proof
  assume e: "events_after v lg = []"
  from assms have mem: "v \<in> Version ` set lg" by auto
  from assms(1) mem obtain b where d: "dropWhile (\<lambda>e. Version e \<noteq> v) lg = b # events_after v lg"
    and hb: "Version b = v" by (rule dropWhile_marker)
  have ne: "lg \<noteq> []" using assms(2) by auto
  have "last lg = last (takeWhile (\<lambda>e. Version e \<noteq> v) lg @ dropWhile (\<lambda>e. Version e \<noteq> v) lg)"
    by simp
  also have "\<dots> = b" using d e by (simp del: takeWhile_dropWhile_id)
  finally show "v = head_version lg" using hb ne by (simp add: head_version_def)
next
  assume "v = head_version lg"
  moreover have "lg \<noteq> []" using assms(2) by auto
  ultimately show "events_after v lg = []"
    using events_after_head [OF assms(1)] by (simp add: head_version_def)
qed

lemma Consumer_Sync_result:
  "Consumer_Sync unmarshal d lg =
     Some (case Consumer_Sync_fn unmarshal d lg of
             (None, d') \<Rightarrow> (None, d', lg)
           | (Some err, t) \<Rightarrow> (Some err, d, lg))"
  by (simp add: Consumer_Sync_def WithinTx_def split: prod.splits option.splits)

text \<open>The producer's scan and the consumer's scan do the same to the transaction.\<close>

lemma Producer_scan_Consumer_scan:
  "(case scan_events (Producer_sync_onEvent unmarshal v) es (lv, t) of (r, lv', t') \<Rightarrow> (r, t'))
     = scan_events (Consumer_Sync_onEvent unmarshal v) es t"
proof (induction es arbitrary: lv t)
  case Nil
  then show ?case by simp
next
  case (Cons e es)
  show ?case
  proof (cases "v = Version e")
    case True
    then show ?thesis
      using Cons.IH [of lv t] by (simp add: Producer_sync_onEvent_def Consumer_Sync_onEvent_def)
  next
    case False
    obtain r t1 where a: "Consumer_apply unmarshal t e = (r, t1)"
      by (cases "Consumer_apply unmarshal t e")
    show ?thesis
    proof (cases r)
      case None
      with a False show ?thesis
        using Cons.IH [of "Version e" t1]
        by (simp add: Producer_sync_onEvent_def Consumer_Sync_onEvent_def Producer_apply_eq)
    next
      case (Some err)
      with a False show ?thesis
        by (simp add: Producer_sync_onEvent_def Consumer_Sync_onEvent_def Producer_apply_eq)
    qed
  qed
qed

lemma Consumer_Scan_Producer_Scan:
  "Scan lg sv (Consumer_Sync_onEvent unmarshal v) t
     = (case Scan lg sv (Producer_sync_onEvent unmarshal v) (lv, t) of (r, lv', t') \<Rightarrow> (r, t'))"
  using Producer_scan_Consumer_scan [of unmarshal v _ lv t]
  by (simp add: Scan_def Let_def)

lemma Producer_sync_Consumer_Sync_fn:
  "(case Producer_sync unmarshal lg t of ((lv, r), t') \<Rightarrow> (r, t')) = Consumer_Sync_fn unmarshal t lg"
  by (auto simp: Producer_sync_def Consumer_Sync_fn_def VersionInitial_def
      Consumer_Scan_Producer_Scan [where lv = "''''"]
      GetProjectionVersion_def2 split: list.splits prod.splits)


lemma Producer_scan_ok:
  "\<forall>e\<in>set es. Version e \<noteq> v \<Longrightarrow> replay unmarshal es t = (None, t') \<Longrightarrow>
     scan_events (Producer_sync_onEvent unmarshal v) es (lv, t)
       = (None, (if es = [] then lv else Version (last es)), t')"
proof (induction es arbitrary: lv t)
  case Nil
  then show ?case by simp
next
  case (Cons e es)
  obtain r t1 where a: "Consumer_apply unmarshal t e = (r, t1)"
    by (cases "Consumer_apply unmarshal t e")
  with Cons.prems(2) have r: "r = None" and rest: "replay unmarshal es t1 = (None, t')"
    by (auto simp: replay_Cons split: option.splits)
  have nv: "\<forall>e\<in>set es. Version e \<noteq> v" and ne: "v \<noteq> Version e"
    using Cons.prems(1) by auto
  show ?case
    using Cons.IH [OF nv rest, of "Version e"] a r ne
    by (simp add: Producer_sync_onEvent_def Producer_apply_eq)
qed

lemma Producer_sync_ok:
  assumes "log_ok lg" and "GetProjectionVersion t = Inr v"
    and "v = '''' \<or> (\<exists>b\<in>set lg. Version b = v)"
    and "events_after v lg \<noteq> []"
    and "replay unmarshal (events_after v lg) t = (None, t')"
  shows "Producer_sync unmarshal lg t = ((head_version lg, None), t')"
proof -
  have ne: "lg \<noteq> []" using assms(4) by (auto simp: events_after_def)
  have hv: "Version (last (events_after v lg)) = head_version lg"
    using last_events_after [OF assms(4)] ne by (simp add: head_version_def)
  show ?thesis
  proof (cases "v = ''''")
    case True
    then have ea: "events_after v lg = lg" by (simp add: events_after_def)
    have nv: "\<forall>x\<in>set lg. Version x \<noteq> ''''" using assms(1) unfolding log_ok_def by auto
    obtain e es where lg: "lg = e # es" using ne by (cases lg) auto
    have e0: "Version e \<noteq> ''0''" using assms(1) unfolding log_ok_def lg by simp
    have "scan_events (Producer_sync_onEvent unmarshal '''') lg ('''', t)
            = (None, Version (last lg), t')"
      using Producer_scan_ok [OF nv, of unmarshal t t' "''''"] assms(5) ea ne by simp
    then show ?thesis
      using True assms(2) e0 hv ea
      by (simp add: Producer_sync_def VersionInitial_def Scan_def lg del: scan_events.simps)
  next
    case False
    with assms(3) have mem: "v \<in> Version ` set lg" by auto
    then have v0: "v \<noteq> ''0''" using assms(1) unfolding log_ok_def by auto
    from assms(1) mem obtain b where d: "dropWhile (\<lambda>e. Version e \<noteq> v) lg = b # events_after v lg"
      and hb: "Version b = v" and nv: "\<forall>e\<in>set (events_after v lg). Version e \<noteq> v"
      by (rule dropWhile_marker)
    have "scan_events (Producer_sync_onEvent unmarshal v) (b # events_after v lg) ('''', t)
            = scan_events (Producer_sync_onEvent unmarshal v) (events_after v lg) ('''', t)"
      using hb by (simp add: Producer_sync_onEvent_def)
    also have "\<dots> = (None, Version (last (events_after v lg)), t')"
      using Producer_scan_ok [OF nv assms(5), of "''''"] assms(4) by simp
    finally show ?thesis
      using False v0 assms(2) d hv
      by (simp add: Producer_sync_def Scan_def del: scan_events.simps)
  qed
qed

lemma Producer_Sync_result:
  "Producer_Sync unmarshal d lg =
     Some (case Producer_sync unmarshal lg d of
             ((lv, None), d') \<Rightarrow> ((lv, None), d', lg)
           | ((lv, Some err), t) \<Rightarrow> ((lv, Some err), d, lg))"
  by (simp add: Producer_Sync_def WithinTx_def split: prod.splits option.splits)

lemma Consumer_Sync_replay:
  assumes "log_ok lg" and "GetProjectionVersion d = Inr v"
    and "v = '''' \<or> (\<exists>b\<in>set lg. Version b = v)"
  shows "Consumer_Sync unmarshal d lg =
           Some (case replay unmarshal (events_after v lg) d of
                   (None, d') \<Rightarrow> (None, d', lg)
                 | (Some err, t) \<Rightarrow> (Some err, d, lg))"
proof -
  have "v = '''' \<or> v \<in> Version ` set lg" using assms(3) by auto
  then show ?thesis
    using Consumer_Sync_fn_is_replay [OF assms(1,2), of unmarshal]
    by (simp add: Consumer_Sync_result)
qed

lemma Consumer_Sync_again:
  assumes "log_ok lg" and "GetProjectionVersion d = Inr v"
    and "v = '''' \<or> (\<exists>b\<in>set lg. Version b = v)"
    and "Consumer_Sync unmarshal d lg = Some (None, d', lg')"
  shows "Consumer_Sync unmarshal d' lg = Some (None, d', lg)"
proof -
  have run: "replay unmarshal (events_after v lg) d = (None, d')"
    using assms(4) Consumer_Sync_replay [OF assms(1-3), of unmarshal]
    by (auto split: prod.splits option.splits)
  show ?thesis
  proof (cases "events_after v lg = []")
    case True
    with run have "d' = d" by simp
    with assms(4) Consumer_Sync_replay [OF assms(1-3), of unmarshal] True show ?thesis by simp
  next
    case False
    then have ne: "lg \<noteq> []" by (auto simp: events_after_def)
    have m: "GetProjectionVersion d' = Inr (Version (last lg))"
      using replay_marker [OF run False] last_events_after [OF False] by simp
    have mem: "Version (last lg) = '''' \<or> (\<exists>b\<in>set lg. Version b = Version (last lg))"
      using ne by auto
    show ?thesis
      using Consumer_Sync_replay [OF assms(1) m mem, of unmarshal] events_after_head [OF assms(1) ne]
      by simp
  qed
qed

lemmas sync_defs =
  Consumer_Sync_def WithinTx_def Consumer_Sync_fn_def Scan_def VersionInitial_def
  Consumer_Sync_onEvent_def head_version_def log_ok_def events_after_def

section \<open>Replaying event by event and replaying at once\<close>

lemma events_after_snoc:
  assumes "log_ok (seen @ [e])" and "seen \<noteq> []"
  shows "events_after (Version (last seen)) (seen @ [e]) = [e]"
proof -
  obtain xs l where s: "seen = xs @ [l]"
    using assms(2) by (metis append_butlast_last_id)
  have "\<forall>x\<in>set xs. Version x \<noteq> Version l"
    using assms(1) unfolding log_ok_def s by (auto simp: image_iff)
  then have "dropWhile (\<lambda>x. Version x \<noteq> Version l) (xs @ [l] @ [e]) = [l, e]"
    by (simp add: dropWhile_append2)
  moreover have "Version l \<noteq> ''''"
    using assms(1) unfolding log_ok_def s by auto
  ultimately show ?thesis by (simp add: events_after_def s)
qed

lemma log_ok_prefix: "log_ok (xs @ ys) \<Longrightarrow> log_ok xs"
  by (auto simp: log_ok_def)

lemma apply_all_decoded:
  assumes "quantities_ok t" and "\<exists>E. Decode unmarshal e = Inr E"
  obtains t' where "Consumer_apply unmarshal t e = (None, t')" and "quantities_ok t'"
proof -
  from assms(1) show thesis
  proof (cases rule: Consumer_apply_cases [of t unmarshal e])
    case (failed err)
    with assms(2) show ?thesis by auto
  next
    case (succeeded E q)
    show ?thesis
      by (rule that [OF succeeded(3) quantities_ok_applied [OF assms(1)]])
  qed
qed

lemma sync_each_replay:
  assumes "log_ok (seen @ es)" and "\<forall>e\<in>set es. \<exists>E. Decode unmarshal e = Inr E"
    and "quantities_ok d"
    and "GetProjectionVersion d = Inr (if seen = [] then '''' else Version (last seen))"
  shows "sync_each unmarshal d seen es = snd (replay unmarshal es d)"
  using assms
proof (induction es arbitrary: d seen)
  case Nil
  then show ?case by simp
next
  case (Cons e es)
  let ?v = "if seen = [] then '''' else Version (last seen)"
  have ok: "log_ok (seen @ [e])"
    using Cons.prems(1) log_ok_prefix [of "seen @ [e]" es] by simp
  have mem: "?v = '''' \<or> (\<exists>b\<in>set (seen @ [e]). Version b = ?v)"
    by auto
  have ea: "events_after ?v (seen @ [e]) = [e]"
  proof (cases "seen = []")
    case True
    then show ?thesis by (simp add: events_after_def)
  next
    case False
    then show ?thesis using events_after_snoc [OF ok False] by simp
  qed
  obtain d1 where a: "Consumer_apply unmarshal d e = (None, d1)" and ok1: "quantities_ok d1"
    using apply_all_decoded [OF Cons.prems(3), of unmarshal e] Cons.prems(2) by auto
  have s: "Consumer_Sync unmarshal d (seen @ [e]) = Some (None, d1, seen @ [e])"
    using Consumer_Sync_replay [OF ok Cons.prems(4) mem, of unmarshal] ea a
    by (simp add: replay_Cons)
  have m1: "GetProjectionVersion d1 =
              Inr (if seen @ [e] = [] then '''' else Version (last (seen @ [e])))"
    using Consumer_apply_marker [OF a] by simp
  have "sync_each unmarshal d1 (seen @ [e]) es = snd (replay unmarshal es d1)"
    using Cons.IH [of "seen @ [e]" d1] Cons.prems(1,2) ok1 m1 by simp
  with s a show ?case by (simp add: replay_Cons)
qed

lemma fold_apply_replay:
  assumes "quantities_ok t" and "\<forall>e\<in>set es. \<exists>E. Decode unmarshal e = Inr E"
  shows "foldl (\<lambda>t e. snd (Consumer_apply unmarshal t e)) t es = snd (replay unmarshal es t)"
  using assms
proof (induction es arbitrary: t)
  case Nil
  then show ?case by simp
next
  case (Cons e es)
  obtain t1 where a: "Consumer_apply unmarshal t e = (None, t1)" and ok1: "quantities_ok t1"
    using apply_all_decoded [OF Cons.prems(1), of unmarshal e] Cons.prems(2) by auto
  show ?case
    using Cons.IH [OF ok1] Cons.prems(2) a by (simp add: replay_Cons)
qed

lemma GetProjectionVersion_Nil: "GetProjectionVersion [] = Inr ''''"
  by (simp add: GetProjectionVersion_def2)

lemma Producer_Sync_Consumer_Sync:
  "map_option (\<lambda>((lv, r), d', lg'). (r, d', lg')) (Producer_Sync unmarshal d lg)
     = Consumer_Sync unmarshal d lg"
  using Producer_sync_Consumer_Sync_fn [of unmarshal lg d]
  by (auto simp: Producer_Sync_result Consumer_Sync_result split: prod.splits option.splits)

section \<open>The producer's pass is a replay too\<close>

lemma Producer_sync_replay:
  assumes "log_ok lg" and "GetProjectionVersion d = Inr v"
    and "v = '''' \<or> (\<exists>b\<in>set lg. Version b = v)"
  shows "\<exists>lv'. Producer_sync unmarshal lg d
                 = ((lv', fst (replay unmarshal (events_after v lg) d)),
                    snd (replay unmarshal (events_after v lg) d))
           \<and> Producer_Sync unmarshal d lg
               = Some (case replay unmarshal (events_after v lg) d of
                         (None, d') \<Rightarrow> ((lv', None), d', lg)
                       | (Some err, t) \<Rightarrow> ((lv', Some err), d, lg))"
proof -
  have mem: "v = '''' \<or> v \<in> Version ` set lg" using assms(3) by auto
  obtain lv' r t' where p: "Producer_sync unmarshal lg d = ((lv', r), t')"
    by (cases "Producer_sync unmarshal lg d") auto
  have "Consumer_Sync_fn unmarshal d lg = (r, t')"
    using Producer_sync_Consumer_Sync_fn [of unmarshal lg d] p by simp
  then have r: "replay unmarshal (events_after v lg) d = (r, t')"
    using Consumer_Sync_fn_is_replay [OF assms(1,2) mem, of unmarshal] by simp
  show ?thesis
    using p r by (auto simp: Producer_Sync_result split: option.splits)
qed

lemma Producer_sync_returns:
  assumes "log_ok lg" and "GetProjectionVersion d = Inr v"
    and "v = '''' \<or> (\<exists>b\<in>set lg. Version b = v)"
    and "fst (replay unmarshal (events_after v lg) d) = None"
  shows "Producer_sync unmarshal lg d
           = ((if events_after v lg \<noteq> [] then head_version lg
               else if v = '''' then ''0'' else '''', None),
              snd (replay unmarshal (events_after v lg) d))"
proof (cases "events_after v lg = []")
  case False
  have "replay unmarshal (events_after v lg) d
          = (None, snd (replay unmarshal (events_after v lg) d))"
    using assms(4) by (cases "replay unmarshal (events_after v lg) d") simp
  from Producer_sync_ok [OF assms(1-3) False this] False show ?thesis by simp
next
  case True
  show ?thesis
  proof (cases "v = ''''")
    case v: True
    with True have "lg = []" by (simp add: events_after_def)
    with v True assms(2) show ?thesis
      by (simp add: Producer_sync_def VersionInitial_def)
  next
    case v: False
    with assms(3) have mem: "v \<in> Version ` set lg" by auto
    then have v0: "v \<noteq> ''0''" using assms(1) unfolding log_ok_def by auto
    from assms(1) mem obtain b where
      d: "dropWhile (\<lambda>e. Version e \<noteq> v) lg = b # events_after v lg" and hb: "Version b = v"
      by (rule dropWhile_marker)
    show ?thesis
      using v v0 assms(2) d hb True
      by (simp add: Producer_sync_def Scan_def Producer_sync_onEvent_def)
  qed
qed

lemma Producer_Sync_again:
  assumes "log_ok lg" and "GetProjectionVersion d = Inr v"
    and "v = '''' \<or> (\<exists>b\<in>set lg. Version b = v)"
    and "Producer_Sync unmarshal d lg = Some ((lv', None), d', lg')"
  shows "\<exists>lv''. Producer_Sync unmarshal d' lg = Some ((lv'', None), d', lg)"
proof -
  have "Consumer_Sync unmarshal d lg = Some (None, d', lg')"
    using Producer_Sync_Consumer_Sync [of unmarshal d lg] assms(4) by simp
  from Consumer_Sync_again [OF assms(1-3) this]
  have "Consumer_Sync unmarshal d' lg = Some (None, d', lg)" .
  then show ?thesis
    using Producer_Sync_Consumer_Sync [of unmarshal d' lg] by auto
qed

lemma Producer_onEvent_failure:
  "Version e \<noteq> v \<Longrightarrow> Consumer_apply unmarshal tx e = (Some err, tx') \<Longrightarrow>
     Producer_sync_onEvent unmarshal v e (lv, tx) = (Some err, lv, tx')"
  by (auto simp: Producer_sync_onEvent_def Producer_apply_eq)

section \<open>Facts about the take\<close>

lemma sint_zero_minus_neg: "0 < sint (q :: int64) \<Longrightarrow> sint (0 - q) < 0"
proof -
  assume a: "0 < sint q"
  have "sint q < 2 ^ 63" using sint_int64_bounds [of q] by simp
  then have "sint (- q) = - sint q"
    using a by (simp add: sint_word_ariths signed_take_bit_int_eq_self)
  with a show ?thesis by simp
qed

lemma Take_transaction_insufficient:
  "GetQuantity t object = Inr q \<Longrightarrow> sint (q - quantity) < 0 \<Longrightarrow>
     Take_transaction marshal object quantity t = Inl ErrInsuffQuant"
  by (simp add: Take_transaction_def)

lemma Producer_Take_valid:
  "ValidateInput object quantity = None \<Longrightarrow>
     Producer_Take fuel unmarshal marshal nv object quantity d lg =
       WithinTx ReadWrite (Producer_Take_fn fuel unmarshal marshal nv object quantity) d lg"
  by (simp add: Producer_Take_def)

lemma Producer_Take_fn_unfold:
  "GetProjectionVersion t = Inr v \<Longrightarrow>
     Producer_Take_fn fuel unmarshal marshal nv object quantity t lg =
       (case TryAppend fuel nv v (Take_transaction marshal object quantity)
               (Producer_Sync_tx unmarshal) t lg of
          None \<Rightarrow> None
        | Some (Inl err, t', lg') \<Rightarrow> Some (Some err, t', lg')
        | Some (Inr version, t', lg') \<Rightarrow> Some (None, t', lg'))"
  by (simp add: Producer_Take_fn_def)

lemma Producer_Take_insufficient:
  assumes "ValidateInput object quantity = None" and "GetQuantity d object = Inr q"
    and "sint (q - quantity) < 0"
  shows "Producer_Take (Suc fuel) unmarshal marshal nv object quantity d lg
           = Some (Some ErrInsuffQuant, d, lg)"
proof -
  obtain v where v: "GetProjectionVersion d = Inr v"
    by (simp add: GetProjectionVersion_def2)
  show ?thesis
    using Take_transaction_insufficient [OF assms(2,3), of marshal]
    by (simp add: Producer_Take_valid [OF assms(1)] WithinTx_def Producer_Take_fn_unfold [OF v])
qed

lemma TryAppend_success:
  "TryAppend fuel nv v transaction sync s lg = Some (Inr version, s', lg') \<Longrightarrow>
     \<exists>n ev. s' = ((\<lambda>s. snd (sync lg s)) ^^ n) s \<and> transaction s' = Inr ev
       \<and> lg' = lg @ [\<lparr>Label = Label ev, PayloadJSON = PayloadJSON ev, Version = nv lg\<rparr>]"
proof (induction fuel arbitrary: v s)
  case 0
  then show ?case by simp
next
  case (Suc fuel)
  from Suc.prems obtain ev where ev: "transaction s = Inr ev"
    by (cases "transaction s") auto
  show ?case
  proof (cases "v = head_version lg")
    case True
    with Suc.prems ev have "s' = s"
      and "lg' = lg @ [\<lparr>Label = Label ev, PayloadJSON = PayloadJSON ev, Version = nv lg\<rparr>]"
      by (auto simp: AppendCheck_def Append_def)
    with ev show ?thesis
      by (intro exI [of _ 0] exI [of _ ev]) simp
  next
    case False
    obtain v' r s1 where sy: "sync lg s = ((v', r), s1)"
      by (cases "sync lg s") auto
    with Suc.prems ev False have r: "r = None"
      and rest: "TryAppend fuel nv v' transaction sync s1 lg = Some (Inr version, s', lg')"
      by (auto simp: AppendCheck_def split: option.splits)
    from Suc.IH [OF rest] obtain n ev' where
      n: "s' = ((\<lambda>s. snd (sync lg s)) ^^ n) s1" and t: "transaction s' = Inr ev'"
      and l: "lg' = lg @ [\<lparr>Label = Label ev', PayloadJSON = PayloadJSON ev', Version = nv lg\<rparr>]"
      by blast
    have "s' = ((\<lambda>s. snd (sync lg s)) ^^ Suc n) s"
      using n sy by (simp add: funpow_Suc_right del: funpow.simps)
    with t l show ?thesis by blast
  qed
qed

lemma Take_transaction_Inr:
  "Take_transaction marshal object quantity t = Inr ev \<Longrightarrow>
     \<exists>payload. marshal \<lparr>Operation = ''take'', Object = object, Quantity = quantity\<rparr> = Inr payload
       \<and> ev = \<lparr>Label = ''take'', PayloadJSON = payload\<rparr>"
  by (auto simp: Take_transaction_def Encode_def split: sum.splits if_splits)

lemma Producer_Take_success:
  assumes "Producer_Take fuel unmarshal marshal nv object quantity d lg = Some (None, d', lg')"
  shows "\<exists>n payload. d' = ((\<lambda>t. snd (Producer_sync unmarshal lg t)) ^^ n) d
           \<and> marshal \<lparr>Operation = ''take'', Object = object, Quantity = quantity\<rparr> = Inr payload
           \<and> lg' = lg @ [\<lparr>Label = ''take'', PayloadJSON = payload, Version = nv lg\<rparr>]"
proof -
  have val: "ValidateInput object quantity = None"
    using assms by (auto simp: Producer_Take_def split: option.splits)
  obtain v where v: "GetProjectionVersion d = Inr v"
    by (simp add: GetProjectionVersion_def2)
  from assms obtain version where
    "TryAppend fuel nv v (Take_transaction marshal object quantity) (Producer_Sync_tx unmarshal) d lg
       = Some (Inr version, d', lg')"
    by (auto simp: Producer_Take_valid [OF val] WithinTx_def Producer_Take_fn_unfold [OF v]
        split: option.splits sum.splits)
  from TryAppend_success [OF this] obtain n ev where
    n: "d' = ((\<lambda>s. snd (Producer_Sync_tx unmarshal lg s)) ^^ n) d"
    and t: "Take_transaction marshal object quantity d' = Inr ev"
    and l: "lg' = lg @ [\<lparr>Label = Label ev, PayloadJSON = PayloadJSON ev, Version = nv lg\<rparr>]"
    by blast
  from Take_transaction_Inr [OF t] obtain payload where
    "marshal \<lparr>Operation = ''take'', Object = object, Quantity = quantity\<rparr> = Inr payload"
    and "ev = \<lparr>Label = ''take'', PayloadJSON = payload\<rparr>"
    by blast
  with n l show ?thesis
    by (auto simp: Producer_Sync_tx_def [abs_def])
qed

lemma Producer_Take_no_conflict:
  assumes "Producer_Take fuel unmarshal marshal nv object quantity d lg = Some (None, d', lg')"
    and "GetProjectionVersion d = Inr (head_version lg)"
  shows "d' = d"
proof -
  have val: "ValidateInput object quantity = None"
    using assms(1) by (auto simp: Producer_Take_def split: option.splits)
  from assms(1) obtain fuel' where f: "fuel = Suc fuel'"
    by (cases fuel)
       (auto simp: Producer_Take_valid [OF val] WithinTx_def Producer_Take_fn_unfold [OF assms(2)])
  show ?thesis
    using assms(1) unfolding f
    by (auto simp: Producer_Take_valid [OF val] WithinTx_def Producer_Take_fn_unfold [OF assms(2)]
        AppendCheck_def Append_def split: sum.splits)
qed

lemma Producer_Take_error:
  "Producer_Take fuel unmarshal marshal nv object quantity d lg = Some (Some err, d', lg') \<Longrightarrow> d' = d"
  by (auto simp: Producer_Take_def WithinTx_def split: option.splits prod.splits)

lemma Producer_Put_database:
  "fst (snd (Producer_Put marshal nv object quantity d lg)) = d"
  by (simp add: Producer_Put_def Append_def split: option.splits sum.splits)

lemma Producer_Put_valid:
  "ValidateInput object quantity = None \<Longrightarrow>
   marshal \<lparr>Operation = ''put'', Object = object, Quantity = quantity\<rparr> = Inr payload \<Longrightarrow>
   Producer_Put marshal nv object quantity d lg
     = (None, d, lg @ [\<lparr>Label = ''put'', PayloadJSON = payload, Version = nv lg\<rparr>])"
  by (simp add: Producer_Put_def Encode_def Append_def)

lemmas take_defs =
  Producer_Put_def Producer_Take_def Producer_Take_fn_def Take_transaction_def ValidateInput_def
  Encode_def Append_def AppendCheck_def head_version_def WithinTx_def
  sample_marshal_def sample_nv_def

lemma marker_behind_head:
  assumes "log_ok lg" and "v = '''' \<or> (\<exists>b\<in>set lg. Version b = v)"
    and "events_after v lg \<noteq> []"
  shows "v \<noteq> head_version lg"
proof (cases "v = ''''")
  case True
  have ne: "lg \<noteq> []" using assms(3) by (auto simp: events_after_def)
  then have "last lg \<in> set lg" by simp
  then have "Version (last lg) \<noteq> ''''"
    using assms(1) unfolding log_ok_def by blast
  with True ne show ?thesis by (simp add: head_version_def)
next
  case False
  with assms(2) have "\<exists>b\<in>set lg. Version b = v" by simp
  from events_after_Nil_iff [OF assms(1) this] assms(3) show ?thesis by simp
qed

lemma Producer_Take_after_conflict:
  assumes val: "ValidateInput object quantity = None"
    and ok: "log_ok lg"
    and v: "GetProjectionVersion d = Inr v"
    and mem: "v = '''' \<or> (\<exists>b\<in>set lg. Version b = v)"
    and ne: "events_after v lg \<noteq> []"
    and run: "replay unmarshal (events_after v lg) d = (None, d')"
    and ev: "Take_transaction marshal object quantity d = Inr ev"
  shows "Producer_Take (Suc (Suc fuel)) unmarshal marshal nv object quantity d lg =
           (case Take_transaction marshal object quantity d' of
              Inl err \<Rightarrow> Some (Some err, d, lg)
            | Inr ev' \<Rightarrow>
                Some (None, d',
                      lg @ [\<lparr>Label = Label ev', PayloadJSON = PayloadJSON ev', Version = nv lg\<rparr>]))"
proof -
  have conflict: "v \<noteq> head_version lg"
    by (rule marker_behind_head [OF ok mem ne])
  have sync: "Producer_Sync_tx unmarshal lg d = ((head_version lg, None), d')"
    unfolding Producer_Sync_tx_def by (rule Producer_sync_ok [OF ok v mem ne run])
  have first: "TryAppend (Suc (Suc fuel)) nv v (Take_transaction marshal object quantity)
                 (Producer_Sync_tx unmarshal) d lg
               = TryAppend (Suc fuel) nv (head_version lg) (Take_transaction marshal object quantity)
                   (Producer_Sync_tx unmarshal) d' lg"
    using ev conflict sync by (simp add: AppendCheck_def)
  have second: "TryAppend (Suc fuel) nv (head_version lg) (Take_transaction marshal object quantity)
                  (Producer_Sync_tx unmarshal) d' lg
                = (case Take_transaction marshal object quantity d' of
                     Inl err \<Rightarrow> Some (Inl err, d', lg)
                   | Inr ev' \<Rightarrow>
                       Some (Inr (nv lg), d',
                             lg @ [\<lparr>Label = Label ev', PayloadJSON = PayloadJSON ev', Version = nv lg\<rparr>]))"
    by (simp add: AppendCheck_def Append_def split: sum.splits)
  show ?thesis
    unfolding Producer_Take_valid [OF val] WithinTx_def Producer_Take_fn_unfold [OF v] first second
    by (simp split: sum.splits)
qed

section \<open>Replay never retains a quantity below 1\<close>

text \<open>
  C1. Replaying any finite sequence of events from the empty projection through
  \<^verbatim>\<open>apply\<close> (the consumer's or the producer's; the replay stops at the first
  event that \<^verbatim>\<open>apply\<close> refuses, as a scan does), every entry of an object that
  the resulting state retains holds a quantity of at least 1, and
  \<^verbatim>\<open>GetQuantity\<close> reads that quantity. The same holds for the database a
  \<^verbatim>\<open>Consumer.Sync\<close> pass from the empty database leaves. Whenever an apply step
  computes a new quantity below 1, the state it leaves has no entry for the
  object.
\<close>

theorem C1_replay_keeps_quantities_positive:
  "(scan_events (\<lambda>e tx. Consumer_apply unmarshal tx e) es [] = (r, tx)
      \<and> map_of tx (''o_'' @ object) = Some s
     \<longrightarrow> (\<exists>q. s = Sprintf_d q \<and> GetQuantity tx object = Inr q \<and> 1 \<le> sint q))
   \<and> (scan_events (\<lambda>e tx. Producer_apply unmarshal tx e) es [] = (r, tx)
      \<and> map_of tx (''o_'' @ object) = Some s
     \<longrightarrow> (\<exists>q. s = Sprintf_d q \<and> GetQuantity tx object = Inr q \<and> 1 \<le> sint q))
   \<and> (Consumer_Sync unmarshal [] lg = Some (r', d, lg') \<and> map_of d (''o_'' @ object) = Some s
     \<longrightarrow> (\<exists>q. s = Sprintf_d q \<and> GetQuantity d object = Inr q \<and> 1 \<le> sint q))
   \<and> (Decode unmarshal e = Inr E \<and> GetQuantity t (Object E) = Inr q0
      \<and> sint (if Operation E = ''take'' then q0 - Quantity E else q0 + Quantity E) < 1
     \<longrightarrow> map_of (snd (Consumer_apply unmarshal t e)) (''o_'' @ Object E) = None
         \<and> map_of (snd (Producer_apply unmarshal t e)) (''o_'' @ Object E) = None)"
proof (intro conjI impI)
  assume a: "scan_events (\<lambda>e tx. Consumer_apply unmarshal tx e) es [] = (r, tx)
      \<and> map_of tx (''o_'' @ object) = Some s"
  have "quantities_ok tx"
    using quantities_ok_replay [OF quantities_ok_Nil, of unmarshal es] a by simp
  then show "\<exists>q. s = Sprintf_d q \<and> GetQuantity tx object = Inr q \<and> 1 \<le> sint q"
    using a by (simp add: quantities_ok_retained)
next
  assume a: "scan_events (\<lambda>e tx. Producer_apply unmarshal tx e) es [] = (r, tx)
      \<and> map_of tx (''o_'' @ object) = Some s"
  have "quantities_ok tx"
    using quantities_ok_replay [OF quantities_ok_Nil, of unmarshal es] a
    by (simp add: Producer_apply_eq)
  then show "\<exists>q. s = Sprintf_d q \<and> GetQuantity tx object = Inr q \<and> 1 \<le> sint q"
    using a by (simp add: quantities_ok_retained)
next
  assume a: "Consumer_Sync unmarshal [] lg = Some (r', d, lg') \<and> map_of d (''o_'' @ object) = Some s"
  have "quantities_ok d"
    using quantities_ok_Consumer_Sync [OF quantities_ok_Nil, of unmarshal lg r' d lg'] a by simp
  then show "\<exists>q. s = Sprintf_d q \<and> GetQuantity d object = Inr q \<and> 1 \<le> sint q"
    using a by (simp add: quantities_ok_retained)
next
  assume a: "Decode unmarshal e = Inr E \<and> GetQuantity t (Object E) = Inr q0
      \<and> sint (if Operation E = ''take'' then q0 - Quantity E else q0 + Quantity E) < 1"
  then have "Consumer_apply unmarshal t e =
      (None, applied t e (Object E) (if Operation E = ''take'' then q0 - Quantity E else q0 + Quantity E))"
    by (simp add: Consumer_apply_ok)
  with a show "map_of (snd (Consumer_apply unmarshal t e)) (''o_'' @ Object E) = None"
    by (simp add: map_of_applied)
  then show "map_of (snd (Producer_apply unmarshal t e)) (''o_'' @ Object E) = None"
    by (simp add: Producer_apply_eq)
qed

theorem C1_replay_witness:
  "scan_events (\<lambda>e tx. Consumer_apply sample_unmarshal tx e) sample_log []
     = (None, [(''o_apple'', ''2''), (''version'', ''4'')])
   \<and> map_of [(''o_apple'', ''2''), (''version'', ''4'')] ''o_apple'' = Some ''2''
   \<and> (\<exists>q. ''2'' = Sprintf_d q
          \<and> GetQuantity [(''o_apple'', ''2''), (''version'', ''4'')] ''apple'' = Inr q \<and> 1 \<le> sint q)
   \<and> map_of [(''o_apple'', ''2''), (''version'', ''4'')] ''o_pear'' = None"
  using
    C1_replay_keeps_quantities_positive
      [where unmarshal = sample_unmarshal and es = sample_log and r = None
         and tx = "[(''o_apple'', ''2''), (''version'', ''4'')]" and object = "''apple''"
         and s = "''2''"]
    sample_replay
  by simp

section \<open>What one apply step does\<close>

text \<open>
  C2 as stated, with the new quantity read as the integer \<open>Q + E.quantity\<close>,
  does not hold at the upper end of \<^verbatim>\<open>int64\<close>. Two puts that both pass input
  validation, of 9223372036854775807 apples and then of 1 apple: after the
  first the projection holds 9223372036854775807; the integer sum with 1 is not
  below 1, yet the second apply computes the sum in \<^verbatim>\<open>int64\<close>, where it wraps
  to the least value, and deletes the entry.
\<close>

theorem C2_overflow_counterexample:
  "ValidateInput ''apple'' 9223372036854775807 = None
   \<and> ValidateInput ''apple'' 1 = None
   \<and> Consumer_apply sample_unmarshal []
        \<lparr>Label = ''put'', PayloadJSON = ''{object:apple,quantity:9223372036854775807}'', Version = ''1''\<rparr>
       = (None, [(''o_apple'', ''9223372036854775807''), (''version'', ''1'')])
   \<and> GetQuantity [(''o_apple'', ''9223372036854775807''), (''version'', ''1'')] ''apple''
       = Inr 9223372036854775807
   \<and> Decode sample_unmarshal
        \<lparr>Label = ''put'', PayloadJSON = ''{object:apple,quantity:1}'', Version = ''2''\<rparr>
       = Inr \<lparr>Operation = ''put'', Object = ''apple'', Quantity = 1\<rparr>
   \<and> \<not> sint (9223372036854775807 :: int64) + sint (1 :: int64) < 1
   \<and> Consumer_apply sample_unmarshal [(''o_apple'', ''9223372036854775807''), (''version'', ''1'')]
        \<lparr>Label = ''put'', PayloadJSON = ''{object:apple,quantity:1}'', Version = ''2''\<rparr>
       = (None, [(''version'', ''2'')])
   \<and> map_of [(''version'', ''2'')] ''o_apple'' = None"
  by (simp add: ValidateInput_def model_defs Let_def)

text \<open>
  C2, amended. An object that has no entry reads as quantity 0. For an event that
  decodes to \<open>E\<close> and a current quantity \<open>q\<close> of its object, the operation is
  \<^verbatim>\<open>take\<close> or \<^verbatim>\<open>put\<close>, the new quantity \<open>q'\<close> is \<open>q - Quantity E\<close> for a take
  and \<open>q + Quantity E\<close> for a put in Go's \<^verbatim>\<open>int64\<close> arithmetic, which wraps
  around and is the exact integer result whenever that fits into 64 bits;
  \<^verbatim>\<open>apply\<close> returns no error, the entry of the object is deleted when \<open>q' < 1\<close>
  and holds \<open>q'\<close> otherwise, the projection version is the event's version in
  either case, and no other key changes.
\<close>

theorem C2_apply_quantity:
  "(map_of tx (''o_'' @ object) = None \<longrightarrow> GetQuantity tx object = Inr 0)
   \<and> (Decode unmarshal e = Inr E \<and> GetQuantity tx (Object E) = Inr q \<longrightarrow>
        (Operation E = ''take'' \<or> Operation E = ''put'')
        \<and> (let q' = (if Operation E = ''take'' then q - Quantity E else q + Quantity E)
           in \<exists>tx'. Consumer_apply unmarshal tx e = (None, tx')
                \<and> GetProjectionVersion tx' = Inr (Version e)
                \<and> (if sint q' < 1
                    then map_of tx' (''o_'' @ Object E) = None
                    else map_of tx' (''o_'' @ Object E) = Some (Sprintf_d q')
                         \<and> GetQuantity tx' (Object E) = Inr q')
                \<and> (\<forall>k. k \<noteq> ''version'' \<and> k \<noteq> ''o_'' @ Object E \<longrightarrow> map_of tx' k = map_of tx k)))
   \<and> (- (2 ^ 63) \<le> sint q - sint (Quantity E) \<and> sint q - sint (Quantity E) < 2 ^ 63
        \<longrightarrow> sint (q - Quantity E) = sint q - sint (Quantity E))
   \<and> (- (2 ^ 63) \<le> sint q + sint (Quantity E) \<and> sint q + sint (Quantity E) < 2 ^ 63
        \<longrightarrow> sint (q + Quantity E) = sint q + sint (Quantity E))"
proof (intro conjI impI)
  assume "map_of tx (''o_'' @ object) = None"
  then show "GetQuantity tx object = Inr 0" by (rule GetQuantity_unseen)
next
  assume a: "Decode unmarshal e = Inr E \<and> GetQuantity tx (Object E) = Inr q"
  then show "Operation E = ''take'' \<or> Operation E = ''put''"
    using Decode_Label [of unmarshal e E] Decode_Operation [of unmarshal e E] by auto
next
  assume a: "Decode unmarshal e = Inr E \<and> GetQuantity tx (Object E) = Inr q"
  define q' where "q' = (if Operation E = ''take'' then q - Quantity E else q + Quantity E)"
  define tx' where "tx' = applied tx e (Object E) q'"
  have run: "Consumer_apply unmarshal tx e = (None, tx')"
    using a by (simp add: Consumer_apply_ok tx'_def q'_def)
  have ver: "GetProjectionVersion tx' = Inr (Version e)"
    by (simp add: GetProjectionVersion_def2 tx'_def map_of_applied)
  have del: "sint q' < 1 \<Longrightarrow> map_of tx' (''o_'' @ Object E) = None"
    by (simp add: tx'_def map_of_applied)
  have sto: "\<not> sint q' < 1 \<Longrightarrow> map_of tx' (''o_'' @ Object E) = Some (Sprintf_d q')"
    by (simp add: tx'_def map_of_applied)
  have frame: "\<forall>k. k \<noteq> ''version'' \<and> k \<noteq> ''o_'' @ Object E \<longrightarrow> map_of tx' k = map_of tx k"
    by (simp add: tx'_def map_of_applied)
  show "let q' = (if Operation E = ''take'' then q - Quantity E else q + Quantity E)
        in \<exists>tx'. Consumer_apply unmarshal tx e = (None, tx')
             \<and> GetProjectionVersion tx' = Inr (Version e)
             \<and> (if sint q' < 1
                 then map_of tx' (''o_'' @ Object E) = None
                 else map_of tx' (''o_'' @ Object E) = Some (Sprintf_d q')
                      \<and> GetQuantity tx' (Object E) = Inr q')
             \<and> (\<forall>k. k \<noteq> ''version'' \<and> k \<noteq> ''o_'' @ Object E \<longrightarrow> map_of tx' k = map_of tx k)"
    unfolding Let_def q'_def [symmetric]
    using run ver del sto frame GetQuantity_stored [of tx' "Object E" q'] by auto
next
  assume "- (2 ^ 63) \<le> sint q - sint (Quantity E) \<and> sint q - sint (Quantity E) < 2 ^ 63"
  then show "sint (q - Quantity E) = sint q - sint (Quantity E)"
    by (simp add: sint_diff_exact)
next
  assume "- (2 ^ 63) \<le> sint q + sint (Quantity E) \<and> sint q + sint (Quantity E) < 2 ^ 63"
  then show "sint (q + Quantity E) = sint q + sint (Quantity E)"
    by (simp add: sint_add_exact)
qed


theorem C2_apply_witness:
  "Decode sample_unmarshal \<lparr>Label = ''put'', PayloadJSON = ''{object:apple,quantity:5}'', Version = ''1''\<rparr>
     = Inr \<lparr>Operation = ''put'', Object = ''apple'', Quantity = 5\<rparr>
   \<and> GetQuantity [] ''apple'' = Inr 0
   \<and> (\<exists>tx'. Consumer_apply sample_unmarshal []
               \<lparr>Label = ''put'', PayloadJSON = ''{object:apple,quantity:5}'', Version = ''1''\<rparr> = (None, tx')
          \<and> GetProjectionVersion tx' = Inr ''1'' \<and> GetQuantity tx' ''apple'' = Inr 5)
   \<and> Consumer_apply sample_unmarshal []
        \<lparr>Label = ''put'', PayloadJSON = ''{object:apple,quantity:5}'', Version = ''1''\<rparr>
       = (None, [(''o_apple'', ''5''), (''version'', ''1'')])
   \<and> Consumer_apply sample_unmarshal [(''o_apple'', ''5''), (''version'', ''1'')]
        \<lparr>Label = ''take'', PayloadJSON = ''{object:apple,quantity:5}'', Version = ''2''\<rparr>
       = (None, [(''version'', ''2'')])"
  using
    C2_apply_quantity
      [of "[]" "''apple''" sample_unmarshal
          "\<lparr>Label = ''put'', PayloadJSON = ''{object:apple,quantity:5}'', Version = ''1''\<rparr>"
          "\<lparr>Operation = ''put'', Object = ''apple'', Quantity = 5\<rparr>" 0]
  by (simp add: model_defs Let_def)

section \<open>A take that the projection cannot cover\<close>

text \<open>
  C3 as stated does not hold for a request that input validation refuses:
  a take of 3 of the object with the empty identifier on the empty projection
  has a current quantity of 0, and 0 - 3 is negative, yet the take returns the
  validation error and not \<^verbatim>\<open>ErrInsuffQuant\<close>.
\<close>

theorem C3_invalid_take_counterexample:
  "GetQuantity [] '''' = Inr 0
   \<and> sint (0 - 3 :: int64) < 0
   \<and> Producer_Take 1 sample_unmarshal sample_marshal sample_nv '''' 3 [] []
       = Some (Some ErrInvalidObject, [], [])
   \<and> Producer_Take 1 sample_unmarshal sample_marshal sample_nv '''' 3 [] []
       \<noteq> Some (Some ErrInsuffQuant, [], [])"
  by (simp add: Producer_Take_def ValidateInput_def GetQuantity_def Tx_get_def)

text \<open>
  C3, amended. For every take that passes input validation (a non-empty object
  and a quantity that is not negative) and whose object has a current quantity
  \<open>q\<close> with \<open>q - quantity\<close> negative: the closure that builds the event
  returns \<^verbatim>\<open>ErrInsuffQuant\<close> and builds none, and the take, with fuel for one
  attempt or more, returns \<^verbatim>\<open>ErrInsuffQuant\<close> and leaves the log and the database
  as they were. On the empty projection this holds for every valid take of a
  positive quantity.
\<close>

theorem C3_take_insufficient_quantity:
  "(ValidateInput object quantity = None \<and> GetQuantity d object = Inr q \<and> sint (q - quantity) < 0 \<longrightarrow>
      Take_transaction marshal object quantity d = Inl ErrInsuffQuant
      \<and> Producer_Take (Suc fuel) unmarshal marshal nv object quantity d lg
          = Some (Some ErrInsuffQuant, d, lg))
   \<and> (object \<noteq> '''' \<and> 0 < sint quantity \<longrightarrow>
      Producer_Take (Suc fuel) unmarshal marshal nv object quantity [] lg
        = Some (Some ErrInsuffQuant, [], lg))"
proof (intro conjI impI)
  assume a: "ValidateInput object quantity = None \<and> GetQuantity d object = Inr q
      \<and> sint (q - quantity) < 0"
  then show "Take_transaction marshal object quantity d = Inl ErrInsuffQuant"
    by (simp add: Take_transaction_insufficient)
  from a show "Producer_Take (Suc fuel) unmarshal marshal nv object quantity d lg
          = Some (Some ErrInsuffQuant, d, lg)"
    by (simp add: Producer_Take_insufficient)
next
  assume a: "object \<noteq> '''' \<and> 0 < sint quantity"
  then have v: "ValidateInput object quantity = None"
    by (simp add: ValidateInput_def)
  have q: "GetQuantity [] object = Inr 0"
    by (simp add: GetQuantity_unseen)
  have n: "sint (0 - quantity) < 0"
    using a sint_zero_minus_neg [of quantity] by simp
  show "Producer_Take (Suc fuel) unmarshal marshal nv object quantity [] lg
        = Some (Some ErrInsuffQuant, [], lg)"
    by (rule Producer_Take_insufficient [OF v q n])
qed

theorem C3_take_witness:
  "ValidateInput ''apple'' 3 = None
   \<and> GetQuantity [] ''apple'' = Inr 0
   \<and> sint (0 - 3 :: int64) < 0
   \<and> Producer_Take 1 sample_unmarshal sample_marshal sample_nv ''apple'' 3 [] []
       = Some (Some ErrInsuffQuant, [], [])
   \<and> GetQuantity [(''o_apple'', ''2''), (''version'', ''4'')] ''apple'' = Inr 2
   \<and> Producer_Take 1 sample_unmarshal sample_marshal sample_nv ''apple'' 3
        [(''o_apple'', ''2''), (''version'', ''4'')] sample_log
       = Some (Some ErrInsuffQuant, [(''o_apple'', ''2''), (''version'', ''4'')], sample_log)"
  using
    C3_take_insufficient_quantity
      [where object = "''apple''" and quantity = 3 and d = "[]" and q = 0 and fuel = 0
         and unmarshal = sample_unmarshal and marshal = sample_marshal and nv = sample_nv
         and lg = "[]"]
    C3_take_insufficient_quantity
      [where object = "''apple''" and quantity = 3
         and d = "[(''o_apple'', ''2''), (''version'', ''4'')]" and q = 2 and fuel = 0
         and unmarshal = sample_unmarshal and marshal = sample_marshal and nv = sample_nv
         and lg = sample_log]
  by (simp add: ValidateInput_def model_defs)

section \<open>A synchronization pass skips the event of its marker\<close>

text \<open>
  C4. In a pass whose marker, read at its start, is \<open>v\<close>: the callback of the
  scan leaves the transaction untouched for an event whose version is \<open>v\<close>,
  and otherwise it is \<^verbatim>\<open>apply\<close> on the transaction of the pass, which on success
  leaves the event's version as the marker (the consumer's and the producer's
  callback alike; the producer's also records that version as the latest one,
  and keeps the one it had when \<^verbatim>\<open>apply\<close> fails). On a well-formed log whose
  marker is empty or carried by an event, the whole pass of the consumer and
  the whole pass of the producer, \<^verbatim>\<open>Producer.sync\<close> on a given transaction as
  well as \<^verbatim>\<open>Producer.Sync\<close> in a transaction of its own, are the replay of
  exactly the events behind the marker, committed as one transaction or
  discarded as one; a successful pass of the producer returns the head of the
  log when it applied an event, the sentinel of the empty log when there is no
  marker and no event, and the empty version when the marker is at the head;
  a pass of either service that follows a successful pass changes nothing. With
  the marker at the head of a non-empty log, and with no marker on an empty
  log, a pass of either service leaves the database as it is.
\<close>

theorem C4_sync_skips_the_marker_event:
  "(Version e = v \<longrightarrow>
      Consumer_Sync_onEvent unmarshal v e tx = (None, tx)
      \<and> Producer_sync_onEvent unmarshal v e (lv, tx) = (None, lv, tx))
   \<and> (Version e \<noteq> v \<longrightarrow>
      Consumer_Sync_onEvent unmarshal v e tx = Consumer_apply unmarshal tx e
      \<and> (\<forall>tx'. Consumer_apply unmarshal tx e = (None, tx') \<longrightarrow>
             GetProjectionVersion tx' = Inr (Version e)
             \<and> Producer_sync_onEvent unmarshal v e (lv, tx) = (None, Version e, tx')))
   \<and> (log_ok lg \<and> GetProjectionVersion d = Inr v \<and> (v = '''' \<or> (\<exists>b\<in>set lg. Version b = v)) \<longrightarrow>
      Consumer_Sync unmarshal d lg =
        Some (case replay unmarshal (events_after v lg) d of
                (None, d') \<Rightarrow> (None, d', lg)
              | (Some err, t) \<Rightarrow> (Some err, d, lg))
      \<and> (\<forall>d' lg'. Consumer_Sync unmarshal d lg = Some (None, d', lg') \<longrightarrow>
             Consumer_Sync unmarshal d' lg = Some (None, d', lg)))
   \<and> (log_ok lg \<and> lg \<noteq> [] \<and> GetProjectionVersion d = Inr (head_version lg) \<longrightarrow>
      Consumer_Sync unmarshal d lg = Some (None, d, lg)
      \<and> (\<exists>lv'. Producer_Sync unmarshal d lg = Some ((lv', None), d, lg)))
   \<and> (GetProjectionVersion d = Inr '''' \<longrightarrow>
      Consumer_Sync unmarshal d [] = Some (None, d, [])
      \<and> Producer_Sync unmarshal d [] = Some ((''0'', None), d, []))
   \<and> (Version e \<noteq> v \<longrightarrow>
      (\<forall>err tx'. Consumer_apply unmarshal tx e = (Some err, tx') \<longrightarrow>
         Producer_sync_onEvent unmarshal v e (lv, tx) = (Some err, lv, tx')))
   \<and> (log_ok lg \<and> GetProjectionVersion d = Inr v \<and> (v = '''' \<or> (\<exists>b\<in>set lg. Version b = v)) \<longrightarrow>
      (\<exists>lv'. Producer_sync unmarshal lg d
                = ((lv', fst (replay unmarshal (events_after v lg) d)),
                   snd (replay unmarshal (events_after v lg) d))
          \<and> Producer_Sync unmarshal d lg
              = Some (case replay unmarshal (events_after v lg) d of
                        (None, d') \<Rightarrow> ((lv', None), d', lg)
                      | (Some err, t) \<Rightarrow> ((lv', Some err), d, lg)))
      \<and> (fst (replay unmarshal (events_after v lg) d) = None \<longrightarrow>
           Producer_sync unmarshal lg d
             = ((if events_after v lg \<noteq> [] then head_version lg
                 else if v = '''' then ''0'' else '''', None),
                snd (replay unmarshal (events_after v lg) d)))
      \<and> (\<forall>lv' d' lg'. Producer_Sync unmarshal d lg = Some ((lv', None), d', lg') \<longrightarrow>
             (\<exists>lv''. Producer_Sync unmarshal d' lg = Some ((lv'', None), d', lg))))"
proof (intro conjI impI allI)
  assume "Version e = v"
  then show "Consumer_Sync_onEvent unmarshal v e tx = (None, tx)"
    and "Producer_sync_onEvent unmarshal v e (lv, tx) = (None, lv, tx)"
    by (simp_all add: Consumer_Sync_onEvent_def Producer_sync_onEvent_def)
next
  assume "Version e \<noteq> v"
  then show "Consumer_Sync_onEvent unmarshal v e tx = Consumer_apply unmarshal tx e"
    by (auto simp: Consumer_Sync_onEvent_def)
next
  fix tx'
  assume "Version e \<noteq> v" and a: "Consumer_apply unmarshal tx e = (None, tx')"
  then show "Producer_sync_onEvent unmarshal v e (lv, tx) = (None, Version e, tx')"
    by (auto simp: Producer_sync_onEvent_def Producer_apply_eq)
  from a show "GetProjectionVersion tx' = Inr (Version e)"
    by (rule Consumer_apply_marker)
next
  assume a: "log_ok lg \<and> GetProjectionVersion d = Inr v \<and> (v = '''' \<or> (\<exists>b\<in>set lg. Version b = v))"
  then show "Consumer_Sync unmarshal d lg =
        Some (case replay unmarshal (events_after v lg) d of
                (None, d') \<Rightarrow> (None, d', lg)
              | (Some err, t) \<Rightarrow> (Some err, d, lg))"
    by (simp add: Consumer_Sync_replay)
next
  fix d' lg'
  assume a: "log_ok lg \<and> GetProjectionVersion d = Inr v \<and> (v = '''' \<or> (\<exists>b\<in>set lg. Version b = v))"
    and b: "Consumer_Sync unmarshal d lg = Some (None, d', lg')"
  show "Consumer_Sync unmarshal d' lg = Some (None, d', lg)"
    using a b Consumer_Sync_again [of lg d v unmarshal d' lg'] by blast
next
  assume a: "log_ok lg \<and> lg \<noteq> [] \<and> GetProjectionVersion d = Inr (head_version lg)"
  then have m: "GetProjectionVersion d = Inr (Version (last lg))" and ne: "lg \<noteq> []" and ok: "log_ok lg"
    by (simp_all add: head_version_def)
  have mem: "Version (last lg) = '''' \<or> (\<exists>b\<in>set lg. Version b = Version (last lg))"
    using ne by auto
  have mem': "Version (last lg) = '''' \<or> Version (last lg) \<in> Version ` set lg"
    using ne by auto
  have c: "Consumer_Sync_fn unmarshal d lg = (None, d)"
    using Consumer_Sync_fn_is_replay [OF ok m mem', of unmarshal] events_after_head [OF ok ne]
    by simp
  then show "Consumer_Sync unmarshal d lg = Some (None, d, lg)"
    by (simp add: Consumer_Sync_result)
  obtain lv' r t' where p: "Producer_sync unmarshal lg d = ((lv', r), t')"
    by (cases "Producer_sync unmarshal lg d") auto
  with c Producer_sync_Consumer_Sync_fn [of unmarshal lg d] have "r = None" and "t' = d"
    by simp_all
  with p show "\<exists>lv'. Producer_Sync unmarshal d lg = Some ((lv', None), d, lg)"
    by (simp add: Producer_Sync_result)
next
  assume a: "GetProjectionVersion d = Inr ''''"
  then show "Consumer_Sync unmarshal d [] = Some (None, d, [])"
    by (simp add: Consumer_Sync_result Consumer_Sync_fn_def VersionInitial_def)
  from a show "Producer_Sync unmarshal d [] = Some ((''0'', None), d, [])"
    by (simp add: Producer_Sync_result Producer_sync_def VersionInitial_def)
next
  fix err tx'
  assume "Version e \<noteq> v" and "Consumer_apply unmarshal tx e = (Some err, tx')"
  then show "Producer_sync_onEvent unmarshal v e (lv, tx) = (Some err, lv, tx')"
    by (rule Producer_onEvent_failure)
next
  assume a: "log_ok lg \<and> GetProjectionVersion d = Inr v \<and> (v = '''' \<or> (\<exists>b\<in>set lg. Version b = v))"
  then show "\<exists>lv'. Producer_sync unmarshal lg d
                = ((lv', fst (replay unmarshal (events_after v lg) d)),
                   snd (replay unmarshal (events_after v lg) d))
          \<and> Producer_Sync unmarshal d lg
              = Some (case replay unmarshal (events_after v lg) d of
                        (None, d') \<Rightarrow> ((lv', None), d', lg)
                      | (Some err, t) \<Rightarrow> ((lv', Some err), d, lg))"
    using Producer_sync_replay [of lg d v unmarshal] by blast
next
  assume a: "log_ok lg \<and> GetProjectionVersion d = Inr v \<and> (v = '''' \<or> (\<exists>b\<in>set lg. Version b = v))"
    and b: "fst (replay unmarshal (events_after v lg) d) = None"
  show "Producer_sync unmarshal lg d
             = ((if events_after v lg \<noteq> [] then head_version lg
                 else if v = '''' then ''0'' else '''', None),
                snd (replay unmarshal (events_after v lg) d))"
    using a b Producer_sync_returns [of lg d v unmarshal] by blast
next
  fix lv' d' lg'
  assume a: "log_ok lg \<and> GetProjectionVersion d = Inr v \<and> (v = '''' \<or> (\<exists>b\<in>set lg. Version b = v))"
    and b: "Producer_Sync unmarshal d lg = Some ((lv', None), d', lg')"
  show "\<exists>lv''. Producer_Sync unmarshal d' lg = Some ((lv'', None), d', lg)"
    using a b Producer_Sync_again [of lg d v unmarshal lv' d' lg'] by blast
qed

theorem C4_sync_witness:
  "log_ok sample_log
   \<and> head_version sample_log = ''4''
   \<and> GetProjectionVersion [(''o_apple'', ''2''), (''version'', ''4'')] = Inr ''4''
   \<and> Consumer_Sync sample_unmarshal [(''o_apple'', ''2''), (''version'', ''4'')] sample_log
       = Some (None, [(''o_apple'', ''2''), (''version'', ''4'')], sample_log)
   \<and> Producer_sync sample_unmarshal sample_log [(''o_apple'', ''2''), (''version'', ''4'')]
       = (('''', None), [(''o_apple'', ''2''), (''version'', ''4'')])
   \<and> GetProjectionVersion [(''o_apple'', ''2''), (''version'', ''2'')] = Inr ''2''
   \<and> events_after ''2'' sample_log = drop 2 sample_log
   \<and> replay sample_unmarshal (drop 2 sample_log) [(''o_apple'', ''2''), (''version'', ''2'')]
       = (None, [(''o_apple'', ''2''), (''version'', ''4'')])
   \<and> Consumer_Sync sample_unmarshal [(''o_apple'', ''2''), (''version'', ''2'')] sample_log
       = Some (None, [(''o_apple'', ''2''), (''version'', ''4'')], sample_log)
   \<and> Producer_sync sample_unmarshal sample_log [(''o_apple'', ''2''), (''version'', ''2'')]
       = ((''4'', None), [(''o_apple'', ''2''), (''version'', ''4'')])
   \<and> Producer_Sync sample_unmarshal [(''o_apple'', ''2''), (''version'', ''2'')] sample_log
       = Some ((''4'', None), [(''o_apple'', ''2''), (''version'', ''4'')], sample_log)"
proof -
  let ?d2 = "[(''o_apple'', ''2''), (''version'', ''2'')]"
  let ?d4 = "[(''o_apple'', ''2''), (''version'', ''4'')]"
  have ok: "log_ok sample_log"
    by (simp add: log_ok_def sample_log_def)
  have hv: "head_version sample_log = ''4''"
    by (simp add: head_version_def sample_log_def)
  have m2: "GetProjectionVersion ?d2 = Inr ''2''" and m4: "GetProjectionVersion ?d4 = Inr ''4''"
    by (simp_all add: GetProjectionVersion_def2)
  have mem2: "''2'' = '''' \<or> (\<exists>b\<in>set sample_log. Version b = ''2'')"
    and mem4: "''4'' = '''' \<or> (\<exists>b\<in>set sample_log. Version b = ''4'')"
    by (simp_all add: sample_log_def)
  have ea2: "events_after ''2'' sample_log = drop 2 sample_log"
    and ea4: "events_after ''4'' sample_log = []"
    by (simp_all add: events_after_def sample_log_def)
  have ne: "drop 2 sample_log \<noteq> []"
    by (simp add: sample_log_def)
  have run: "replay sample_unmarshal (drop 2 sample_log) ?d2 = (None, ?d4)"
    by (simp add: replay_def sample_log_def model_defs Let_def)
  note at2 = C4_sync_skips_the_marker_event
      [where lg = sample_log and d = ?d2 and unmarshal = sample_unmarshal and v = "''2''"]
  note at4 = C4_sync_skips_the_marker_event
      [where lg = sample_log and d = ?d4 and unmarshal = sample_unmarshal and v = "''4''"]
  have c2: "Consumer_Sync sample_unmarshal ?d2 sample_log
              = Some (case replay sample_unmarshal (events_after ''2'' sample_log) ?d2 of
                        (None, d') \<Rightarrow> (None, d', sample_log)
                      | (Some err, t) \<Rightarrow> (Some err, ?d2, sample_log))"
    using at2 ok m2 mem2 by blast
  have c4: "Consumer_Sync sample_unmarshal ?d4 sample_log
              = Some (case replay sample_unmarshal (events_after ''4'' sample_log) ?d4 of
                        (None, d') \<Rightarrow> (None, d', sample_log)
                      | (Some err, t) \<Rightarrow> (Some err, ?d4, sample_log))"
    using at4 ok m4 mem4 by blast
  have p2: "fst (replay sample_unmarshal (events_after ''2'' sample_log) ?d2) = None \<longrightarrow>
            Producer_sync sample_unmarshal sample_log ?d2
              = ((if events_after ''2'' sample_log \<noteq> [] then head_version sample_log
                  else if ''2'' = '''' then ''0'' else '''', None),
                 snd (replay sample_unmarshal (events_after ''2'' sample_log) ?d2))"
    using at2 ok m2 mem2 by blast
  have p4: "fst (replay sample_unmarshal (events_after ''4'' sample_log) ?d4) = None \<longrightarrow>
            Producer_sync sample_unmarshal sample_log ?d4
              = ((if events_after ''4'' sample_log \<noteq> [] then head_version sample_log
                  else if ''4'' = '''' then ''0'' else '''', None),
                 snd (replay sample_unmarshal (events_after ''4'' sample_log) ?d4))"
    using at4 ok m4 mem4 by blast
  have P2: "\<exists>lv'. Producer_sync sample_unmarshal sample_log ?d2
                = ((lv', fst (replay sample_unmarshal (events_after ''2'' sample_log) ?d2)),
                   snd (replay sample_unmarshal (events_after ''2'' sample_log) ?d2))
          \<and> Producer_Sync sample_unmarshal ?d2 sample_log
              = Some (case replay sample_unmarshal (events_after ''2'' sample_log) ?d2 of
                        (None, d') \<Rightarrow> ((lv', None), d', sample_log)
                      | (Some err, t) \<Rightarrow> ((lv', Some err), ?d2, sample_log))"
    using at2 ok m2 mem2 by blast
  have s2: "Producer_sync sample_unmarshal sample_log ?d2 = ((''4'', None), ?d4)"
    using p2 ne by (simp add: ea2 run hv)
  have s4: "Producer_sync sample_unmarshal sample_log ?d4 = (('''', None), ?d4)"
    using p4 by (simp add: ea4)
  have S2: "Producer_Sync sample_unmarshal ?d2 sample_log = Some ((''4'', None), ?d4, sample_log)"
    using P2 s2 by (auto simp: ea2 run)
  show ?thesis
    using ok hv m2 m4 ea2 run s2 s4 S2 c2 c4 by (simp add: ea4)
qed

section \<open>Replay is deterministic\<close>

text \<open>
  C5. For every well-formed log of events that decode (put and take events with
  a payload the JSON decoder accepts), synchronizing after each single event
  from the empty database leaves the same database as one synchronization pass
  over the whole log, by the consumer or by the producer: the state the replay
  of the events through \<^verbatim>\<open>apply\<close> leaves. Folding \<^verbatim>\<open>apply\<close> over the events one
  at a time gives that state too. The producer's \<^verbatim>\<open>apply\<close> is the same function
  as the consumer's, and on every database and every log a pass of the producer
  returns the error and leaves the database that a pass of the consumer does.
\<close>

theorem C5_replay_is_deterministic:
  "(log_ok es \<and> (\<forall>e\<in>set es. \<exists>E. Decode unmarshal e = Inr E) \<longrightarrow>
      sync_each unmarshal [] [] es = snd (replay unmarshal es [])
      \<and> Consumer_Sync unmarshal [] es = Some (None, snd (replay unmarshal es []), es)
      \<and> (\<exists>lv. Producer_Sync unmarshal [] es = Some ((lv, None), snd (replay unmarshal es []), es)))
   \<and> ((\<forall>e\<in>set es. \<exists>E. Decode unmarshal e = Inr E) \<longrightarrow>
      foldl (\<lambda>t e. snd (Consumer_apply unmarshal t e)) [] es = snd (replay unmarshal es [])
      \<and> foldl (\<lambda>t e. snd (Producer_apply unmarshal t e)) [] es = snd (replay unmarshal es []))
   \<and> Producer_apply unmarshal t e = Consumer_apply unmarshal t e
   \<and> map_option (\<lambda>((lv, r), d', lg'). (r, d', lg')) (Producer_Sync unmarshal d lg)
       = Consumer_Sync unmarshal d lg"
proof (intro conjI impI)
  assume a: "log_ok es \<and> (\<forall>e\<in>set es. \<exists>E. Decode unmarshal e = Inr E)"
  then have ok: "log_ok es" and dec: "\<forall>e\<in>set es. \<exists>E. Decode unmarshal e = Inr E"
    by simp_all
  show "sync_each unmarshal [] [] es = snd (replay unmarshal es [])"
    using sync_each_replay [of "[]" es unmarshal "[]"] ok dec
    by (simp add: quantities_ok_Nil GetProjectionVersion_Nil)
  have r: "fst (replay unmarshal es []) = None"
    using replay_ok [OF quantities_ok_Nil dec] .
  have mem: "'''' = '''' \<or> (\<exists>b\<in>set es. Version b = '''')" by simp
  show c: "Consumer_Sync unmarshal [] es = Some (None, snd (replay unmarshal es []), es)"
    using Consumer_Sync_replay [OF ok GetProjectionVersion_Nil mem, of unmarshal] r
    by (simp add: events_after_def split: prod.splits)
  show "\<exists>lv. Producer_Sync unmarshal [] es = Some ((lv, None), snd (replay unmarshal es []), es)"
    using c Producer_Sync_Consumer_Sync [of unmarshal "[]" es] by auto
next
  assume dec: "\<forall>e\<in>set es. \<exists>E. Decode unmarshal e = Inr E"
  show "foldl (\<lambda>t e. snd (Consumer_apply unmarshal t e)) [] es = snd (replay unmarshal es [])"
    using fold_apply_replay [OF quantities_ok_Nil dec] .
  then show "foldl (\<lambda>t e. snd (Producer_apply unmarshal t e)) [] es = snd (replay unmarshal es [])"
    by (simp add: Producer_apply_eq)
next
  show "Producer_apply unmarshal t e = Consumer_apply unmarshal t e"
    by (simp add: Producer_apply_eq)
next
  show "map_option (\<lambda>((lv, r), d', lg'). (r, d', lg')) (Producer_Sync unmarshal d lg)
       = Consumer_Sync unmarshal d lg"
    by (rule Producer_Sync_Consumer_Sync)
qed


theorem C5_replay_witness:
  "log_ok sample_log
   \<and> replay sample_unmarshal sample_log [] = (None, [(''o_apple'', ''2''), (''version'', ''4'')])
   \<and> sync_each sample_unmarshal [] [] sample_log = [(''o_apple'', ''2''), (''version'', ''4'')]
   \<and> Consumer_Sync sample_unmarshal [] sample_log
       = Some (None, [(''o_apple'', ''2''), (''version'', ''4'')], sample_log)
   \<and> (\<exists>lv. Producer_Sync sample_unmarshal [] sample_log
             = Some ((lv, None), [(''o_apple'', ''2''), (''version'', ''4'')], sample_log))
   \<and> foldl (\<lambda>t e. snd (Consumer_apply sample_unmarshal t e)) [] sample_log
       = [(''o_apple'', ''2''), (''version'', ''4'')]"
proof -
  have ok: "log_ok sample_log"
    by (simp add: log_ok_def sample_log_def)
  have dec: "\<forall>e\<in>set sample_log. \<exists>E. Decode sample_unmarshal e = Inr E"
    by (simp add: sample_log_def Decode_def sample_unmarshal_def)
  have r: "replay sample_unmarshal sample_log [] = (None, [(''o_apple'', ''2''), (''version'', ''4'')])"
    using sample_replay by (simp add: replay_def)
  show ?thesis
    using C5_replay_is_deterministic [where es = sample_log and unmarshal = sample_unmarshal]
      ok dec r
    by simp
qed

section \<open>The write path leaves the projection to the synchronization\<close>

text \<open>
  C6. \<^verbatim>\<open>Put\<close> never changes the database, and a put that passes validation and
  encodes is appended whatever the database holds: the database is read by no
  step and no invariant is checked. A take that succeeds has appended exactly
  its take event, and the database it commits is the one it started from after
  some number of runs (possibly none) of \<^verbatim>\<open>Producer.sync\<close> against the log as it
  was before the append, so the appended event itself is applied by no step of
  the take; when the marker is at the head of the log, so that the append does
  not conflict, the database is unchanged. A take that returns an error leaves
  the database unchanged.
\<close>

theorem C6_write_path_leaves_the_projection:
  "fst (snd (Producer_Put marshal nv object quantity d lg)) = d
   \<and> (ValidateInput object quantity = None
       \<and> marshal \<lparr>Operation = ''put'', Object = object, Quantity = quantity\<rparr> = Inr payload \<longrightarrow>
      Producer_Put marshal nv object quantity d lg
        = (None, d, lg @ [\<lparr>Label = ''put'', PayloadJSON = payload, Version = nv lg\<rparr>]))
   \<and> (Producer_Take fuel unmarshal marshal nv object quantity d lg = Some (None, d', lg') \<longrightarrow>
      (\<exists>n payload'. d' = ((\<lambda>t. snd (Producer_sync unmarshal lg t)) ^^ n) d
         \<and> marshal \<lparr>Operation = ''take'', Object = object, Quantity = quantity\<rparr> = Inr payload'
         \<and> lg' = lg @ [\<lparr>Label = ''take'', PayloadJSON = payload', Version = nv lg\<rparr>]))
   \<and> (Producer_Take fuel unmarshal marshal nv object quantity d lg = Some (None, d', lg')
       \<and> GetProjectionVersion d = Inr (head_version lg) \<longrightarrow> d' = d)
   \<and> (Producer_Take fuel unmarshal marshal nv object quantity d lg = Some (Some err, d', lg') \<longrightarrow>
      d' = d)"
proof (intro conjI impI)
  show "fst (snd (Producer_Put marshal nv object quantity d lg)) = d"
    by (rule Producer_Put_database)
next
  assume "ValidateInput object quantity = None
       \<and> marshal \<lparr>Operation = ''put'', Object = object, Quantity = quantity\<rparr> = Inr payload"
  then show "Producer_Put marshal nv object quantity d lg
        = (None, d, lg @ [\<lparr>Label = ''put'', PayloadJSON = payload, Version = nv lg\<rparr>])"
    by (simp add: Producer_Put_valid)
next
  assume "Producer_Take fuel unmarshal marshal nv object quantity d lg = Some (None, d', lg')"
  then show "\<exists>n payload'. d' = ((\<lambda>t. snd (Producer_sync unmarshal lg t)) ^^ n) d
         \<and> marshal \<lparr>Operation = ''take'', Object = object, Quantity = quantity\<rparr> = Inr payload'
         \<and> lg' = lg @ [\<lparr>Label = ''take'', PayloadJSON = payload', Version = nv lg\<rparr>]"
    by (rule Producer_Take_success)
next
  assume "Producer_Take fuel unmarshal marshal nv object quantity d lg = Some (None, d', lg')
       \<and> GetProjectionVersion d = Inr (head_version lg)"
  then show "d' = d"
    using Producer_Take_no_conflict by blast
next
  assume "Producer_Take fuel unmarshal marshal nv object quantity d lg = Some (Some err, d', lg')"
  then show "d' = d" by (rule Producer_Take_error)
qed

theorem C6_write_path_witness:
  "Producer_Put sample_marshal sample_nv ''apple'' 5 [] []
     = (None, [], [\<lparr>Label = ''put'', PayloadJSON = ''{object:apple,quantity:5}'', Version = ''1''\<rparr>])
   \<and> GetProjectionVersion [(''o_apple'', ''5''), (''version'', ''1'')]
       = Inr (head_version [\<lparr>Label = ''put'', PayloadJSON = ''{object:apple,quantity:5}'', Version = ''1''\<rparr>])
   \<and> Producer_Take (Suc 0) sample_unmarshal sample_marshal sample_nv ''apple'' 2
        [(''o_apple'', ''5''), (''version'', ''1'')]
        [\<lparr>Label = ''put'', PayloadJSON = ''{object:apple,quantity:5}'', Version = ''1''\<rparr>]
       = Some (None, [(''o_apple'', ''5''), (''version'', ''1'')],
               [\<lparr>Label = ''put'', PayloadJSON = ''{object:apple,quantity:5}'', Version = ''1''\<rparr>,
                \<lparr>Label = ''take'', PayloadJSON = ''{object:apple,quantity:2}'', Version = ''2''\<rparr>])
   \<and> GetQuantity [(''o_apple'', ''5''), (''version'', ''1'')] ''apple'' = Inr 5"
  using
    C6_write_path_leaves_the_projection
      [where marshal = sample_marshal and nv = sample_nv and object = "''apple''" and quantity = 5
         and d = "[]" and lg = "[]" and payload = "''{object:apple,quantity:5}''"]
    C6_write_path_leaves_the_projection
      [where marshal = sample_marshal and nv = sample_nv and object = "''apple''" and quantity = 2
         and unmarshal = sample_unmarshal and fuel = "Suc 0"
         and d = "[(''o_apple'', ''5''), (''version'', ''1'')]"
         and lg = "[\<lparr>Label = ''put'', PayloadJSON = ''{object:apple,quantity:5}'', Version = ''1''\<rparr>]"]
  by (simp add: take_defs model_defs)

section \<open>A conflicting take resynchronizes inside its own transaction\<close>

text \<open>
  C7. Let a valid take start from a database whose marker \<open>v\<close> (empty, or
  carried by an event of the well-formed log) is behind the head of the log, let
  the first pre-check pass and build the event \<open>ev\<close>, and let the replay of the
  events behind the marker succeed and leave \<open>d'\<close>. Then the conditional append
  of \<open>ev\<close> against \<open>v\<close> is a version conflict that leaves the log as it is; the
  resynchronization, run by \<^verbatim>\<open>Producer.Sync\<close> on the transaction of the take,
  leaves exactly \<open>d'\<close>, whose marker is the head of the log, and returns that
  head as the version to retry against; and the take, with fuel for two attempts
  or more, ends with the second attempt on \<open>d'\<close>: it commits \<open>d'\<close> and
  appends the rebuilt event, or it returns the error of the second pre-check and
  the whole transaction, resynchronization included, is discarded.
\<close>

theorem C7_conflict_resyncs_inside_the_take:
  "ValidateInput object quantity = None
   \<and> log_ok lg
   \<and> GetProjectionVersion d = Inr v \<and> (v = '''' \<or> (\<exists>b\<in>set lg. Version b = v))
   \<and> events_after v lg \<noteq> []
   \<and> replay unmarshal (events_after v lg) d = (None, d')
   \<and> Take_transaction marshal object quantity d = Inr ev
   \<longrightarrow> AppendCheck nv lg v ev = (Inl ErrMismatchingVersions, lg)
       \<and> Producer_Sync_tx unmarshal lg d = ((head_version lg, None), d')
       \<and> GetProjectionVersion d' = Inr (head_version lg)
       \<and> Producer_Take (Suc (Suc fuel)) unmarshal marshal nv object quantity d lg =
           (case Take_transaction marshal object quantity d' of
              Inl err \<Rightarrow> Some (Some err, d, lg)
            | Inr ev' \<Rightarrow>
                Some (None, d',
                      lg @ [\<lparr>Label = Label ev', PayloadJSON = PayloadJSON ev', Version = nv lg\<rparr>]))"
proof (intro impI, elim conjE, intro conjI)
  assume val: "ValidateInput object quantity = None"
    and ok: "log_ok lg"
    and v: "GetProjectionVersion d = Inr v"
    and mem: "v = '''' \<or> (\<exists>b\<in>set lg. Version b = v)"
    and ne: "events_after v lg \<noteq> []"
    and run: "replay unmarshal (events_after v lg) d = (None, d')"
    and ev: "Take_transaction marshal object quantity d = Inr ev"
  show "AppendCheck nv lg v ev = (Inl ErrMismatchingVersions, lg)"
    using marker_behind_head [OF ok mem ne] by (simp add: AppendCheck_def)
  show "Producer_Sync_tx unmarshal lg d = ((head_version lg, None), d')"
    unfolding Producer_Sync_tx_def by (rule Producer_sync_ok [OF ok v mem ne run])
  have "lg \<noteq> []" using ne by (auto simp: events_after_def)
  then show "GetProjectionVersion d' = Inr (head_version lg)"
    using replay_marker [OF run ne] last_events_after [OF ne] by (simp add: head_version_def)
  show "Producer_Take (Suc (Suc fuel)) unmarshal marshal nv object quantity d lg =
           (case Take_transaction marshal object quantity d' of
              Inl err \<Rightarrow> Some (Some err, d, lg)
            | Inr ev' \<Rightarrow>
                Some (None, d',
                      lg @ [\<lparr>Label = Label ev', PayloadJSON = PayloadJSON ev', Version = nv lg\<rparr>]))"
    by (rule Producer_Take_after_conflict [OF val ok v mem ne run ev])
qed

theorem C7_conflict_witness:
  "log_ok (take 2 sample_log)
   \<and> GetProjectionVersion [(''o_apple'', ''5''), (''version'', ''1'')] = Inr ''1''
   \<and> events_after ''1'' (take 2 sample_log)
       = [\<lparr>Label = ''take'', PayloadJSON = ''{object:apple,quantity:3}'', Version = ''2''\<rparr>]
   \<and> replay sample_unmarshal (events_after ''1'' (take 2 sample_log))
         [(''o_apple'', ''5''), (''version'', ''1'')]
       = (None, [(''o_apple'', ''2''), (''version'', ''2'')])
   \<and> Producer_Sync_tx sample_unmarshal (take 2 sample_log) [(''o_apple'', ''5''), (''version'', ''1'')]
       = ((''2'', None), [(''o_apple'', ''2''), (''version'', ''2'')])
   \<and> Producer_Take (Suc (Suc 0)) sample_unmarshal sample_marshal sample_nv ''apple'' 2
         [(''o_apple'', ''5''), (''version'', ''1'')] (take 2 sample_log)
       = Some (None, [(''o_apple'', ''2''), (''version'', ''2'')],
               take 2 sample_log
                 @ [\<lparr>Label = ''take'', PayloadJSON = ''{object:apple,quantity:2}'', Version = ''3''\<rparr>])
   \<and> Producer_Take (Suc (Suc 0)) sample_unmarshal sample_marshal sample_nv ''apple'' 4
         [(''o_apple'', ''5''), (''version'', ''1'')] (take 2 sample_log)
       = Some (Some ErrInsuffQuant, [(''o_apple'', ''5''), (''version'', ''1'')], take 2 sample_log)"
proof -
  have ok: "log_ok (take 2 sample_log)"
    by (simp add: log_ok_def sample_log_def)
  have ea: "events_after ''1'' (take 2 sample_log)
       = [\<lparr>Label = ''take'', PayloadJSON = ''{object:apple,quantity:3}'', Version = ''2''\<rparr>]"
    by (simp add: events_after_def sample_log_def)
  have run: "replay sample_unmarshal (events_after ''1'' (take 2 sample_log))
         [(''o_apple'', ''5''), (''version'', ''1'')]
       = (None, [(''o_apple'', ''2''), (''version'', ''2'')])"
    unfolding ea by (simp add: replay_def model_defs Let_def)
  have mem: "\<exists>b\<in>set (take 2 sample_log). Version b = ''1''"
    by (simp add: sample_log_def)
  have hv: "head_version (take 2 sample_log) = ''2''"
    by (simp add: head_version_def sample_log_def)
  have nv: "sample_nv (take 2 sample_log) = ''3''"
    by (simp add: sample_nv_def sample_log_def digits_small digit_char_def)
  show ?thesis
    using
      C7_conflict_resyncs_inside_the_take
        [where object = "''apple''" and quantity = 2 and lg = "take 2 sample_log"
           and d = "[(''o_apple'', ''5''), (''version'', ''1'')]" and v = "''1''"
           and unmarshal = sample_unmarshal and marshal = sample_marshal and nv = sample_nv
           and d' = "[(''o_apple'', ''2''), (''version'', ''2'')]" and fuel = 0
           and ev = "\<lparr>Label = ''take'', PayloadJSON = ''{object:apple,quantity:2}''\<rparr>"]
      C7_conflict_resyncs_inside_the_take
        [where object = "''apple''" and quantity = 4 and lg = "take 2 sample_log"
           and d = "[(''o_apple'', ''5''), (''version'', ''1'')]" and v = "''1''"
           and unmarshal = sample_unmarshal and marshal = sample_marshal and nv = sample_nv
           and d' = "[(''o_apple'', ''2''), (''version'', ''2'')]" and fuel = 0
           and ev = "\<lparr>Label = ''take'', PayloadJSON = ''{object:apple,quantity:4}''\<rparr>"]
      ok mem run hv nv
    by (simp add: ea ValidateInput_def Take_transaction_def Encode_def sample_marshal_def model_defs)
qed

section \<open>The codec rejects every unknown kind of event\<close>

text \<open>
  C8. \<^verbatim>\<open>Decode\<close> fails with the unknown-event-type error for every label other
  than \<^verbatim>\<open>put\<close> and \<^verbatim>\<open>take\<close>, the label \<^verbatim>\<open>delete\<close> among them, whatever the
  payload is; \<^verbatim>\<open>Encode\<close> fails with the same error for every operation tag other
  than \<^verbatim>\<open>put\<close> and \<^verbatim>\<open>take\<close>. For the two accepted labels \<^verbatim>\<open>Decode\<close> returns the
  event whose operation is the label and whose object and quantity are those the
  JSON decoder reads from the payload, and the JSON decoder's error when it
  reports one.
\<close>

theorem C8_codec_unknown_event_kind:
  "(Label i \<noteq> ''put'' \<and> Label i \<noteq> ''take'' \<longrightarrow> Decode unmarshal i = Inl ErrUnknownEventType)
   \<and> Decode unmarshal \<lparr>Label = ''delete'', PayloadJSON = p, Version = v\<rparr> = Inl ErrUnknownEventType
   \<and> (Operation e \<noteq> ''put'' \<and> Operation e \<noteq> ''take'' \<longrightarrow> Encode marshal e = Inl ErrUnknownEventType)
   \<and> ((Label i = ''put'' \<or> Label i = ''take'') \<and> unmarshal (PayloadJSON i) = Some (object, quantity)
        \<longrightarrow> Decode unmarshal i = Inr \<lparr>Operation = Label i, Object = object, Quantity = quantity\<rparr>)
   \<and> ((Label i = ''put'' \<or> Label i = ''take'') \<and> unmarshal (PayloadJSON i) = None
        \<longrightarrow> Decode unmarshal i = Inl ErrJSON)"
  by (simp add: Decode_def Encode_def)

theorem C8_codec_witness:
  "Decode sample_unmarshal \<lparr>Label = ''delete'', PayloadJSON = ''{object:apple,quantity:5}'', Version = ''1''\<rparr>
     = Inl ErrUnknownEventType
   \<and> Encode sample_marshal \<lparr>Operation = ''delete'', Object = ''apple'', Quantity = 5\<rparr>
     = Inl ErrUnknownEventType
   \<and> Decode sample_unmarshal \<lparr>Label = ''take'', PayloadJSON = ''{object:apple,quantity:3}'', Version = ''2''\<rparr>
     = Inr \<lparr>Operation = ''take'', Object = ''apple'', Quantity = 3\<rparr>"
  using
    C8_codec_unknown_event_kind
      [of "\<lparr>Label = ''delete'', PayloadJSON = ''{object:apple,quantity:5}'', Version = ''1''\<rparr>"
          sample_unmarshal "''{object:apple,quantity:5}''" "''1''"
          "\<lparr>Operation = ''delete'', Object = ''apple'', Quantity = 5\<rparr>" sample_marshal
          "''apple''" 5]
    C8_codec_unknown_event_kind
      [of "\<lparr>Label = ''take'', PayloadJSON = ''{object:apple,quantity:3}'', Version = ''2''\<rparr>"
          sample_unmarshal "''''" "''''"
          "\<lparr>Operation = ''take'', Object = ''apple'', Quantity = 3\<rparr>" sample_marshal
          "''apple''" 3]
  by (simp add: sample_unmarshal_def)

section \<open>Halting the read query at an object\<close>

text \<open>
  C9. The read query is meant to complete without error when a callback halts
  the enumeration. Evaluated on a projection that holds one object: when
  the object callback answers \<^verbatim>\<open>false\<close>, \<^verbatim>\<open>ScanDB\<close> returns \<^verbatim>\<open>ErrAbortScan\<close> (and
  \<^verbatim>\<open>WithinTx\<close> discards the transaction); when the version callback answers
  \<^verbatim>\<open>false\<close>, it returns no error.
\<close>

theorem C9_early_halt_surfaces_as_error:
  "ScanDB (\<lambda>v. True) (\<lambda>object quantity. False) [(''o_apple'', ''5''), (''version'', ''1'')] []
     = Some (Some ErrAbortScan, [(''o_apple'', ''5''), (''version'', ''1'')], [])
   \<and> ScanDB (\<lambda>v. False) (\<lambda>object quantity. True) [(''o_apple'', ''5''), (''version'', ''1'')] []
     = Some (None, [(''o_apple'', ''5''), (''version'', ''1'')], [])"
  by (simp add: ScanDB_def ScanDB_fn_def WithinTx_def ScanObjects_def scanPrefix_def model_defs Let_def)

section \<open>Validation comes before everything else\<close>

text \<open>
  C10. For an empty object identifier or a negative quantity, \<^verbatim>\<open>ValidateInput\<close>
  returns a validation error, and \<^verbatim>\<open>Put\<close> and \<^verbatim>\<open>Take\<close> return that error with
  the database and the log as they were: for every database, every log, every
  JSON encoder and every amount of fuel, zero included, so neither a transaction
  nor the append protocol is entered. The quantity 0 passes validation for every
  non-empty object.
\<close>

theorem C10_validation_comes_first:
  "(object = '''' \<or> sint quantity < 0 \<longrightarrow>
      (\<exists>err. ValidateInput object quantity = Some err
         \<and> (err = ErrInvalidObject \<or> err = ErrInvalidQuantity)
         \<and> Producer_Put marshal nv object quantity d lg = (Some err, d, lg)
         \<and> Producer_Take fuel unmarshal marshal nv object quantity d lg = Some (Some err, d, lg)))
   \<and> (object \<noteq> '''' \<longrightarrow> ValidateInput object 0 = None)"
  by (auto simp: ValidateInput_def Producer_Put_def Producer_Take_def)

theorem C10_validation_witness:
  "Producer_Put sample_marshal sample_nv '''' 3 [] sample_log = (Some ErrInvalidObject, [], sample_log)
   \<and> Producer_Take 0 sample_unmarshal sample_marshal sample_nv '''' 3 [] sample_log
       = Some (Some ErrInvalidObject, [], sample_log)
   \<and> sint (- 1 :: int64) < 0
   \<and> Producer_Put sample_marshal sample_nv ''apple'' (- 1) [] sample_log
       = (Some ErrInvalidQuantity, [], sample_log)
   \<and> Producer_Take 0 sample_unmarshal sample_marshal sample_nv ''apple'' (- 1) [] sample_log
       = Some (Some ErrInvalidQuantity, [], sample_log)
   \<and> ValidateInput ''apple'' 0 = None"
  using
    C10_validation_comes_first
      [of "''''" 3 sample_marshal sample_nv "[]" sample_log 0 sample_unmarshal]
    C10_validation_comes_first
      [of "''apple''" "- 1" sample_marshal sample_nv "[]" sample_log 0 sample_unmarshal]
  by (auto simp: ValidateInput_def)

end
